theory Spec2Isabelle
  imports Complex_Main
begin

section \<open>Strings and numbers of the host language\<close>

text \<open>
  The application is JavaScript. Strings are modelled as \<^typ>\<open>string\<close> over ASCII.
  A JavaScript number that holds an integer is an \<^typ>\<open>int\<close>, and \<open>NaN\<close> is
  \<^term>\<open>None\<close>: \<open>parseInt\<close> returns \<^typ>\<open>int option\<close>. Doubles represent
  every integer of magnitude below \<open>2^53\<close> exactly, so the model agrees with the engine on
  that range.
\<close>

definition is_space :: "char \<Rightarrow> bool" where
  "is_space c = (c \<in> set [CHR 0x09, CHR 0x0A, CHR 0x0B, CHR 0x0C, CHR 0x0D, CHR '' ''])"

text \<open>\<open>String.prototype.trim\<close>\<close>

definition trim :: "string \<Rightarrow> string" where
  "trim s = rev (dropWhile is_space (rev (dropWhile is_space s)))"

text \<open>\<open>String.prototype.split\<close> with a separator of one character: \<open>"".split(",")\<close> is \<open>[""]\<close>.\<close>

fun split_on :: "char \<Rightarrow> string \<Rightarrow> string list" where
  "split_on c [] = [[]]"
| "split_on c (x # xs) =
     (if x = c then [] # split_on c xs
      else (case split_on c xs of [] \<Rightarrow> [[x]] | w # ws \<Rightarrow> (x # w) # ws))"

text \<open>\<open>String.prototype.toLowerCase\<close> and \<open>endsWith\<close>, on ASCII.\<close>

definition lower_char :: "char \<Rightarrow> char" where
  "lower_char c =
     (if 65 \<le> (of_char c :: nat) \<and> (of_char c :: nat) \<le> 90 then char_of ((of_char c :: nat) + 32) else c)"

definition toLowerCase :: "string \<Rightarrow> string" where
  "toLowerCase s = map lower_char s"

definition endsWith :: "string \<Rightarrow> string \<Rightarrow> bool" where
  "endsWith s suffix = (length suffix \<le> length s \<and> drop (length s - length suffix) s = suffix)"

text \<open>The value of a character as a digit, for radix 10 and 16.\<close>

definition digit_val :: "char \<Rightarrow> nat option" where
  "digit_val c =
     (let n = (of_char c :: nat) in
      if 48 \<le> n \<and> n \<le> 57 then Some (n - 48)
      else if 97 \<le> n \<and> n \<le> 102 then Some (n - 87)
      else if 65 \<le> n \<and> n \<le> 70 then Some (n - 55)
      else None)"

definition is_digit :: "nat \<Rightarrow> char \<Rightarrow> bool" where
  "is_digit r c = (case digit_val c of None \<Rightarrow> False | Some d \<Rightarrow> d < r)"

definition digits_value :: "nat \<Rightarrow> string \<Rightarrow> nat" where
  "digits_value r ds = foldl (\<lambda>acc c. acc * r + (case digit_val c of None \<Rightarrow> 0 | Some d \<Rightarrow> d)) 0 ds"

text \<open>
  \<open>parseInt(s)\<close> with no radix argument: leading white space is skipped, a sign is read,
  the prefix \<open>0x\<close> or \<open>0X\<close> selects radix 16, and the longest prefix of digits is
  the value. No digit at all gives \<open>NaN\<close>.
\<close>

definition strip_sign :: "string \<Rightarrow> int \<times> string" where
  "strip_sign s =
     (case s of
        [] \<Rightarrow> (1, s)
      | c # r \<Rightarrow> if c = CHR ''-'' then (- 1, r) else if c = CHR ''+'' then (1, r) else (1, s))"

definition strip_radix :: "string \<Rightarrow> nat \<times> string" where
  "strip_radix s =
     (case s of
        c # x # r \<Rightarrow> if c = CHR ''0'' \<and> (x = CHR ''x'' \<or> x = CHR ''X'') then (16, r) else (10, s)
      | _ \<Rightarrow> (10, s))"

definition parseInt :: "string \<Rightarrow> int option" where
  "parseInt s =
     (let (sgn, s2) = strip_sign (dropWhile is_space s);
          (r, s3) = strip_radix s2;
          ds = takeWhile (is_digit r) s3
      in if ds = [] then None else Some (sgn * int (digits_value r ds)))"

text \<open>
  Number to string for a non-negative integer (template literals, \<open>String(n)\<close>):
  its decimal numeral.
\<close>

definition digit_char :: "nat \<Rightarrow> char" where
  "digit_char d = char_of (48 + d)"

fun show_nat :: "nat \<Rightarrow> string" where
  "show_nat n = (if n < 10 then [digit_char n] else show_nat (n div 10) @ [digit_char (n mod 10)])"

declare show_nat.simps [simp del]

definition show_int :: "int \<Rightarrow> string" where
  "show_int v = (if v < 0 then CHR ''-'' # show_nat (nat (- v)) else show_nat (nat v))"

text \<open>
  Number to string: \<open>NaN\<close> is \<open>"NaN"\<close>, and an integer of magnitude below
  \<open>10^21\<close> is its decimal numeral. From \<open>10^21\<close> on the engine writes exponent
  notation (\<open>"1e+21"\<close>), with the digits of the shortest decimal that reads back as the
  same double; that text is the parameter \<open>exponential\<close>.
\<close>

definition number_toString :: "(int \<Rightarrow> string) \<Rightarrow> int option \<Rightarrow> string" where
  "number_toString exponential n =
     (case n of
        None \<Rightarrow> ''NaN''
      | Some v \<Rightarrow> if \<bar>v\<bar> < 10 ^ 21 then show_int v else exponential v)"

text \<open>\<open>parseInt(n)\<close> applied to a number converts it to a string first.\<close>

definition parseInt_number :: "(int \<Rightarrow> string) \<Rightarrow> int option \<Rightarrow> int option" where
  "parseInt_number exponential n = parseInt (number_toString exponential n)"

text \<open>
  Results of divisions. \<open>a / b\<close> on integers is a fraction, an infinity when only
  \<open>b\<close> is zero, and \<open>NaN\<close> for \<open>0 / 0\<close>. Fractions are exact here, where a double
  is rounded; rounding is monotone and keeps \<open>0\<close> and \<open>100\<close>, so the bounds stated
  below are those of the doubles.
\<close>

datatype jsnum = Fin rat | PosInf | NegInf | NaN

definition js_div :: "int \<Rightarrow> int \<Rightarrow> jsnum" where
  "js_div a b =
     (if b = 0 then (if a = 0 then NaN else if 0 < a then PosInf else NegInf)
      else Fin (of_int a / of_int b))"

text \<open>Multiplication by, and addition of, a positive constant.\<close>

definition js_times :: "jsnum \<Rightarrow> rat \<Rightarrow> jsnum" where
  "js_times x c = (case x of Fin r \<Rightarrow> Fin (r * c) | _ \<Rightarrow> x)"

definition js_plus :: "rat \<Rightarrow> jsnum \<Rightarrow> jsnum" where
  "js_plus c x = (case x of Fin r \<Rightarrow> Fin (c + r) | _ \<Rightarrow> x)"

text \<open>\<open>(a / b) * 100\<close>\<close>

definition percent_of :: "int \<Rightarrow> int \<Rightarrow> jsnum" where
  "percent_of a b = js_times (js_div a b) 100"

definition in_percent_range :: "jsnum \<Rightarrow> bool" where
  "in_percent_range x = (case x of Fin r \<Rightarrow> 0 \<le> r \<and> r \<le> 100 | _ \<Rightarrow> False)"

section \<open>Page-range parsing\<close>

text \<open>
  A JavaScript \<open>Set\<close> keeps its members in insertion order, and \<open>NaN\<close> is a member
  like any other: a list without repetition, extended at the end.
\<close>

definition set_add :: "'a \<Rightarrow> 'a list \<Rightarrow> 'a list" where
  "set_add x xs = (if x \<in> set xs then xs else xs @ [x])"

text \<open>
  \<open>Array.prototype.sort((a, b) => a - b)\<close>. The sort is stable; \<open>b\<close> goes before
  \<open>a\<close> when \<open>a - b\<close> is positive, and a comparison with \<open>NaN\<close> counts as equal.
  The model is a stable insertion sort. With a \<open>NaN\<close> in the array the comparator is
  inconsistent and engines may differ; without one every stable sort gives this result.
\<close>

definition comes_after :: "int option \<Rightarrow> int option \<Rightarrow> bool" where
  "comes_after a b = (case (a, b) of (Some x, Some y) \<Rightarrow> x - y > 0 | _ \<Rightarrow> False)"

fun insert_sorted :: "int option \<Rightarrow> int option list \<Rightarrow> int option list" where
  "insert_sorted x [] = [x]"
| "insert_sorted x (y # ys) = (if comes_after x y then y # insert_sorted x ys else x # y # ys)"

definition js_sort :: "int option list \<Rightarrow> int option list" where
  "js_sort xs = foldr insert_sorted xs []"

text \<open>The loop \<open>for (let i = start; i <= end; i++) pages.add(i)\<close>.\<close>

function range_loop :: "int \<Rightarrow> int \<Rightarrow> int option list \<Rightarrow> int option list" where
  "range_loop i e pages = (if i \<le> e then range_loop (i + 1) e (set_add (Some i) pages) else pages)"
  by pat_completeness auto
termination
  by (relation "measure (\<lambda>(i, e, pages). nat (e + 1 - i))") auto

declare range_loop.simps [simp del]

text \<open>
  The body of \<open>parts.forEach\<close>. A part with a hyphen is split at every hyphen and the first
  two pieces are \<open>start\<close> and \<open>end\<close>; a comparison with \<open>NaN\<close> is false, so the
  loop does not run when either is \<open>NaN\<close>.
\<close>

definition add_part :: "int option list \<Rightarrow> string \<Rightarrow> int option list" where
  "add_part pages part0 =
     (let part = trim part0 in
      if CHR ''-'' \<in> set part then
        (case map (\<lambda>n. parseInt (trim n)) (split_on CHR ''-'' part) of
           Some s # Some e # _ \<Rightarrow> range_loop s e pages
         | _ \<Rightarrow> pages)
      else set_add (parseInt part) pages)"

definition parsePageRange :: "string \<Rightarrow> int option list" where
  "parsePageRange input = js_sort (foldl add_part [] (split_on CHR '','' input))"

text \<open>
  The inputs the specification of the parser speaks about, as data: a token is a page number
  or an inclusive range, written in decimal; an input is their texts joined by commas.
  \<open>token_pages\<close> lists the page numbers a token denotes; a reversed range denotes none.
  Page numbers stay within the integers a double holds exactly.
\<close>

datatype token = Single nat | Range nat nat

fun token_text :: "token \<Rightarrow> string" where
  "token_text (Single n) = show_nat n"
| "token_text (Range a b) = show_nat a @ ''-'' @ show_nat b"

fun token_pages :: "token \<Rightarrow> int list" where
  "token_pages (Single n) = [int n]"
| "token_pages (Range a b) = [int a..int b]"

definition max_safe_integer :: nat where
  "max_safe_integer = 2 ^ 53 - 1"

fun token_ok :: "token \<Rightarrow> bool" where
  "token_ok (Single n) = (n \<le> max_safe_integer)"
| "token_ok (Range a b) = (a \<le> max_safe_integer \<and> b \<le> max_safe_integer)"

fun join_with :: "string \<Rightarrow> string list \<Rightarrow> string" where
  "join_with sep [] = []"
| "join_with sep [x] = x"
| "join_with sep (x # y # ys) = x @ sep @ join_with sep (y # ys)"

definition page_range_text :: "token list \<Rightarrow> string" where
  "page_range_text ts = join_with '','' (map token_text ts)"

section \<open>Files, documents and the PDF library\<close>

text \<open>
  The application delegates every PDF manipulation to a library; the model of the library is
  the part of its behaviour the code relies on. A page has a content, the things drawn on
  it in order (texts, pictures and shapes; positions, sizes, fonts and colours are left
  out), and a rotation angle; a blank page has no content. A page object of a loaded
  document is readable, or corrupted: the library throws when it is asked to copy, read or
  change a corrupted page. A file has a declared MIME type, a name and bytes; the bytes are
  a PDF document, a JPEG or PNG image, or something else.
\<close>

datatype 'a drawing = Text string | Picture 'a | Rectangle | Circle | Line

record 'a page =
  content :: "'a drawing list"
  rotation :: int

datatype 'a page_object = Readable "'a page" | Corrupted

type_synonym 'a document = "'a page_object list"

datatype 'a data = PdfData "'a document" | JpegData 'a | PngData 'a | OtherData

record 'a file_obj =
  ftype :: string
  fname :: string
  bytes :: "'a data"

datatype error = LoadFailed | CopyFailed "int option" | PageFailed nat | EmbedFailed
  | NotMultipleOf90 int | NoValidPages | RepairFailed error
  | UnsupportedImage | WatermarkImageFailed error | ImageEmbeddingFailed error | UnlockFailed error
  | EncodeFailed string | ConversionFailed error

text \<open>
  What an operation does besides returning: calls of the progress callback with a percent
  value, and warnings on the console (for a skipped page, its number; for a skipped image,
  the file's name). A run is the sequence of these events and the result or the exception.
\<close>

datatype event = Progress jsnum | Warn_page nat | Warn_image string

type_synonym 'r run = "event list \<times> (error + 'r)"

definition succeed :: "'r \<Rightarrow> 'r run" where
  "succeed x = ([], Inr x)"

definition throw :: "error \<Rightarrow> 'r run" where
  "throw e = ([], Inl e)"

definition lift :: "error + 'r \<Rightarrow> 'r run" where
  "lift r = ([], r)"

definition warn :: "event \<Rightarrow> unit run" where
  "warn w = ([w], Inr ())"

text \<open>\<open>if (progressCallback) progressCallback(percent, text)\<close>; \<open>cb\<close> says whether a callback was passed.\<close>

definition report :: "bool \<Rightarrow> jsnum \<Rightarrow> unit run" where
  "report cb p = (if cb then [Progress p] else [], Inr ())"

text \<open>Sequencing: an exception ends the run, and the events so far stay.\<close>

definition and_then :: "'a run \<Rightarrow> ('a \<Rightarrow> 'b run) \<Rightarrow> 'b run" where
  "and_then m f =
     (case m of
        (ev, Inl e) \<Rightarrow> (ev, Inl e)
      | (ev, Inr x) \<Rightarrow> (case f x of (ev', r) \<Rightarrow> (ev @ ev', r)))"

text \<open>A loop over the values \<open>xs\<close> in order, the body updating the loop's state.\<close>

fun for_each :: "'x list \<Rightarrow> ('x \<Rightarrow> 's \<Rightarrow> 's run) \<Rightarrow> 's \<Rightarrow> 's run" where
  "for_each [] body s = ([], Inr s)"
| "for_each (x # xs) body s =
     (case body x s of
        (ev, Inl e) \<Rightarrow> (ev, Inl e)
      | (ev, Inr s') \<Rightarrow> (case for_each xs body s' of (ev', r) \<Rightarrow> (ev @ ev', r)))"

text \<open>\<open>PDFDocument.load\<close>, \<open>create\<close>, \<open>getPageCount\<close>, \<open>getPageIndices\<close>, \<open>addPage\<close>.\<close>

definition load :: "'a data \<Rightarrow> error + 'a document" where
  "load b = (case b of PdfData d \<Rightarrow> Inr d | _ \<Rightarrow> Inl LoadFailed)"

definition create :: "'a document" where
  "create = []"

definition getPageCount :: "'a document \<Rightarrow> nat" where
  "getPageCount d = length d"

definition getPageIndices :: "'a document \<Rightarrow> int option list" where
  "getPageIndices d = map (\<lambda>i. Some (int i)) [0..<length d]"

definition addPage :: "'a document \<Rightarrow> 'a page \<Rightarrow> 'a document" where
  "addPage d p = d @ [Readable p]"

text \<open>
  \<open>save\<close> writes the document; to a document without any page it first adds a blank
  page (the library's \<open>addDefaultPage\<close>, on by default).
\<close>

definition blank_page :: "'a page" where
  "blank_page = \<lparr>content = [], rotation = 0\<rparr>"

definition save :: "'a document \<Rightarrow> 'a data" where
  "save d = PdfData (if getPageCount d = 0 then addPage d blank_page else d)"

text \<open>
  \<open>copyPages(src, indices)\<close> copies all the pages or throws; an index that is \<open>NaN\<close> or
  out of range makes it throw. \<open>copyPage\<close> is the call with one index,
  \<open>const [copiedPage] = await newPdf.copyPages(srcPdf, [i])\<close>.
\<close>

definition copyPage :: "'a document \<Rightarrow> int option \<Rightarrow> error + 'a page" where
  "copyPage src i =
     (case i of
        None \<Rightarrow> Inl (CopyFailed i)
      | Some v \<Rightarrow>
          if 0 \<le> v \<and> v < int (length src)
          then (case src ! nat v of Readable p \<Rightarrow> Inr p | Corrupted \<Rightarrow> Inl (CopyFailed i))
          else Inl (CopyFailed i))"

fun copyPages :: "'a document \<Rightarrow> int option list \<Rightarrow> error + 'a page list" where
  "copyPages src [] = Inr []"
| "copyPages src (i # is) =
     (case copyPage src i of
        Inl e \<Rightarrow> Inl e
      | Inr p \<Rightarrow> (case copyPages src is of Inl e \<Rightarrow> Inl e | Inr ps \<Rightarrow> Inr (p # ps)))"

text \<open>\<open>page.setRotation(degrees(angle))\<close> throws unless the angle is a multiple of 90.\<close>

definition setRotation :: "int \<Rightarrow> 'a page \<Rightarrow> error + 'a page" where
  "setRotation angle p =
     (if angle mod 90 = 0 then Inr (p\<lparr>rotation := angle\<rparr>) else Inl (NotMultipleOf90 angle))"

text \<open>\<open>page.setRotation(degrees(page.getRotation().angle + delta))\<close> on page \<open>i\<close> of a document.\<close>

definition rotatePage :: "int \<Rightarrow> nat \<Rightarrow> 'a document \<Rightarrow> error + 'a document" where
  "rotatePage delta i d =
     (if i < length d
      then (case d ! i of
              Readable p \<Rightarrow>
                (case setRotation (rotation p + delta) p of
                   Inl e \<Rightarrow> Inl e
                 | Inr p' \<Rightarrow> Inr (d[i := Readable p']))
            | Corrupted \<Rightarrow> Inl (PageFailed i))
      else Inl (PageFailed i))"

text \<open>\<open>page.drawImage(image, ...)\<close>\<close>

definition drawImage :: "'a \<Rightarrow> 'a page \<Rightarrow> 'a page" where
  "drawImage img p = p\<lparr>content := content p @ [Picture img]\<rparr>"

text \<open>\<open>embedJpg\<close> and \<open>embedPng\<close> throw on bytes that are not an image of that format.\<close>

definition embedJpg :: "'a data \<Rightarrow> error + 'a" where
  "embedJpg b = (case b of JpegData x \<Rightarrow> Inr x | _ \<Rightarrow> Inl EmbedFailed)"

definition embedPng :: "'a data \<Rightarrow> error + 'a" where
  "embedPng b = (case b of PngData x \<Rightarrow> Inr x | _ \<Rightarrow> Inl EmbedFailed)"

section \<open>File-type validation\<close>

definition isValidPDF :: "'a file_obj \<Rightarrow> bool" where
  "isValidPDF file = (ftype file = ''application/pdf'' \<or> endsWith (toLowerCase (fname file)) ''.pdf'')"

definition isValidImage :: "'a file_obj \<Rightarrow> bool" where
  "isValidImage file = (ftype file \<in> set [''image/jpeg'', ''image/png'', ''image/jpg''])"

definition isValidDoc :: "'a file_obj \<Rightarrow> bool" where
  "isValidDoc file =
     (ftype file \<in> set
        [''application/vnd.openxmlformats-officedocument.wordprocessingml.document'',
         ''application/msword'',
         ''application/vnd.openxmlformats-officedocument.spreadsheetml.sheet'',
         ''application/vnd.ms-excel'',
         ''application/vnd.openxmlformats-officedocument.presentationml.presentation'',
         ''application/vnd.ms-powerpoint''])"

section \<open>Merge and split\<close>

text \<open>\<open>PDFUtils.mergePDFs\<close>: the loop's state is \<open>processedFiles\<close> and \<open>mergedPdf\<close>.\<close>

definition mergePDFs :: "'a file_obj list \<Rightarrow> bool \<Rightarrow> 'a data run" where
  "mergePDFs files cb =
     and_then
       (for_each files
          (\<lambda>file (processedFiles, mergedPdf).
             let processedFiles' = processedFiles + 1 in
             and_then (report cb (percent_of (int processedFiles') (int (length files)))) (\<lambda>_.
             and_then (lift (load (bytes file))) (\<lambda>pdf.
             and_then (lift (copyPages pdf (getPageIndices pdf))) (\<lambda>copiedPages.
             succeed (processedFiles', foldl addPage mergedPdf copiedPages)))))
          (0 :: nat, create))
       (\<lambda>(processedFiles, mergedPdf). succeed (save mergedPdf))"

record 'a split_item =
  pageNumber :: nat
  blob :: "'a data"
  filename :: string

text \<open>\<open>PDFUtils.splitPDF\<close>: the loop's state is the array \<open>splitPDFs\<close>.\<close>

definition splitPDF :: "'a file_obj \<Rightarrow> bool \<Rightarrow> 'a split_item list run" where
  "splitPDF file cb =
     and_then (lift (load (bytes file))) (\<lambda>srcPdf.
       let pageCount = getPageCount srcPdf in
       for_each [0..<pageCount]
         (\<lambda>i splitPDFs.
            and_then (report cb (percent_of (int i + 1) (int pageCount))) (\<lambda>_.
            and_then (lift (copyPage srcPdf (Some (int i)))) (\<lambda>copiedPage.
            let newPdf = addPage create copiedPage;
                pdfBytes = save newPdf
            in succeed (splitPDFs @
                 [\<lparr>pageNumber = i + 1, blob = pdfBytes,
                   filename = ''page_'' @ show_nat (i + 1) @ ''.pdf''\<rparr>]))))
         [])"

section \<open>The organize tools\<close>

definition merge :: "'a file_obj list \<Rightarrow> bool \<Rightarrow> 'a data run" where
  "merge files cb = mergePDFs files cb"

definition split :: "'a file_obj \<Rightarrow> bool \<Rightarrow> 'a split_item list run" where
  "split file cb = splitPDF file cb"

text \<open>
  \<open>extract\<close>: the requested numbers are made 0-indexed, those outside the document (and
  \<open>NaN\<close>, for which every comparison is false) are filtered out, and the rest is sorted.
  The first argument of \<open>extract\<close> and of \<open>deletePages\<close> is the engine's exponent
  notation, which \<open>parseInt\<close> reads for a number from \<open>10^21\<close> on.
\<close>

definition valid_index :: "nat \<Rightarrow> int option \<Rightarrow> bool" where
  "valid_index count n = (case n of None \<Rightarrow> False | Some v \<Rightarrow> 0 \<le> v \<and> v < int count)"

definition minus_one :: "int option \<Rightarrow> int option" where
  "minus_one n = map_option (\<lambda>v. v - 1) n"

definition "extract" ::
  "(int \<Rightarrow> string) \<Rightarrow> 'a file_obj \<Rightarrow> int option list \<Rightarrow> bool \<Rightarrow> 'a data run" where
  "extract exponential file pageNumbers cb =
     and_then (lift (load (bytes file))) (\<lambda>srcPdf.
       let validPages =
             js_sort (filter (valid_index (getPageCount srcPdf))
               (map (\<lambda>n. minus_one (parseInt_number exponential n)) pageNumbers))
       in and_then
            (for_each [0..<length validPages]
               (\<lambda>i newPdf.
                  and_then (report cb (percent_of (int i + 1) (int (length validPages)))) (\<lambda>_.
                  let pageIndex = validPages ! i in
                  and_then (lift (copyPage srcPdf pageIndex)) (\<lambda>copiedPage.
                  succeed (addPage newPdf copiedPage))))
               create)
            (\<lambda>newPdf. succeed (save newPdf)))"

text \<open>
  \<open>organize\<close>: an entry of \<open>pageConfig\<close> names a page of the source and a rotation to add;
  \<open>if (config.rotation)\<close> skips a rotation of \<open>0\<close>, and otherwise \<open>setRotation\<close>
  is called with the sum of the page's angle and the rotation.
\<close>

record page_config =
  originalIndex :: "int option"
  config_rotation :: int

definition organize :: "'a file_obj \<Rightarrow> page_config list \<Rightarrow> bool \<Rightarrow> 'a data run" where
  "organize file pageConfig cb =
     and_then (lift (load (bytes file))) (\<lambda>srcPdf.
       and_then
         (for_each [0..<length pageConfig]
            (\<lambda>i newPdf.
               and_then (report cb (percent_of (int i + 1) (int (length pageConfig)))) (\<lambda>_.
               let config = pageConfig ! i in
               and_then (lift (copyPage srcPdf (originalIndex config))) (\<lambda>page.
               and_then
                 (lift (if config_rotation config \<noteq> 0
                        then setRotation (rotation page + config_rotation config) page
                        else Inr page)) (\<lambda>page'.
               succeed (addPage newPdf page')))))
            create)
         (\<lambda>newPdf. succeed (save newPdf)))"

text \<open>
  \<open>deletePages\<close>: the loop's state is \<open>processedCount\<close> and \<open>newPdf\<close>;
  \<open>processedCount\<close> is incremented only under \<open>if (progressCallback)\<close>.
\<close>

definition deletePages ::
  "(int \<Rightarrow> string) \<Rightarrow> 'a file_obj \<Rightarrow> int option list \<Rightarrow> bool \<Rightarrow> 'a data run" where
  "deletePages exponential file pageNumbersToDelete cb =
     and_then (lift (load (bytes file))) (\<lambda>srcPdf.
       let totalPages = getPageCount srcPdf;
           deleteSet = foldl (\<lambda>s n. set_add n s) []
                         (map (\<lambda>n. minus_one (parseInt_number exponential n)) pageNumbersToDelete)
       in and_then
            (for_each [0..<totalPages]
               (\<lambda>i (processedCount, newPdf).
                  if Some (int i) \<notin> set deleteSet then
                    (let processedCount' = (if cb then processedCount + 1 else processedCount) in
                     and_then
                       (report cb (percent_of (int processedCount')
                          (int totalPages - int (length deleteSet)))) (\<lambda>_.
                     and_then (lift (copyPage srcPdf (Some (int i)))) (\<lambda>copiedPage.
                     succeed (processedCount', addPage newPdf copiedPage))))
                  else succeed (processedCount, newPdf))
               (0 :: nat, create))
            (\<lambda>(processedCount, newPdf). succeed (save newPdf)))"

text \<open>\<open>rotateAll\<close> changes the pages of the loaded document in place.\<close>

definition rotateAll :: "'a file_obj \<Rightarrow> int \<Rightarrow> bool \<Rightarrow> 'a data run" where
  "rotateAll file rotationDegrees cb =
     and_then (lift (load (bytes file))) (\<lambda>pdfDoc.
       let n = length pdfDoc in
       and_then
         (for_each [0..<n]
            (\<lambda>i doc.
               and_then (report cb (percent_of (int i + 1) (int n))) (\<lambda>_.
               lift (rotatePage rotationDegrees i doc)))
            pdfDoc)
         (\<lambda>doc. succeed (save doc)))"

text \<open>\<open>reverse\<close>: \<open>for (let i = totalPages - 1; i >= 0; i--)\<close>.\<close>

definition reverse :: "'a file_obj \<Rightarrow> bool \<Rightarrow> 'a data run" where
  "reverse file cb =
     and_then (lift (load (bytes file))) (\<lambda>srcPdf.
       let totalPages = getPageCount srcPdf in
       and_then
         (for_each (rev [0..<totalPages])
            (\<lambda>i newPdf.
               and_then (report cb (percent_of (int totalPages - int i) (int totalPages))) (\<lambda>_.
               and_then (lift (copyPage srcPdf (Some (int i)))) (\<lambda>copiedPage.
               succeed (addPage newPdf copiedPage))))
            create)
         (\<lambda>newPdf. succeed (save newPdf)))"

section \<open>Repair and images to PDF\<close>

text \<open>
  \<open>OptimizeTools.repair\<close>: the inner \<open>try\<close> turns a failure to copy a page into a warning;
  the outer one rethrows every exception as \<open>Repair failed: ...\<close>.
\<close>

definition repair_body :: "'a file_obj \<Rightarrow> bool \<Rightarrow> 'a data run" where
  "repair_body file cb =
     and_then (report cb (Fin 20)) (\<lambda>_.
     and_then (lift (load (bytes file))) (\<lambda>srcPdf.
     and_then (report cb (Fin 50)) (\<lambda>_.
     let pageCount = getPageCount srcPdf in
     and_then
       (for_each [0..<pageCount]
          (\<lambda>i newPdf.
             and_then
               (report cb (js_plus 50 (js_times (js_div (int i + 1) (int pageCount)) 50))) (\<lambda>_.
             (case copyPage srcPdf (Some (int i)) of
                Inr copiedPage \<Rightarrow> succeed (addPage newPdf copiedPage)
              | Inl pageError \<Rightarrow> and_then (warn (Warn_page (i + 1))) (\<lambda>_. succeed newPdf))))
          create)
       (\<lambda>newPdf.
          if getPageCount newPdf = 0 then throw NoValidPages else succeed (save newPdf)))))"

definition repair :: "'a file_obj \<Rightarrow> bool \<Rightarrow> 'a data run" where
  "repair file cb =
     (case repair_body file cb of
        (ev, Inl e) \<Rightarrow> (ev, Inl (RepairFailed e))
      | (ev, Inr r) \<Rightarrow> (ev, Inr r))"

text \<open>
  \<open>ConvertToTools.imagesToPDF\<close>: an image that fails to embed is skipped with a warning
  (\<open>continue\<close>); a file that is declared neither JPEG nor PNG leaves \<open>image\<close> undefined
  and adds no page. The page made for an image is a new page with the image drawn on it.
\<close>

definition imagesToPDF :: "'a file_obj list \<Rightarrow> bool \<Rightarrow> 'a data run" where
  "imagesToPDF files cb =
     and_then
       (for_each [0..<length files]
          (\<lambda>i pdfDoc.
             and_then (report cb (percent_of (int i + 1) (int (length files)))) (\<lambda>_.
             let file = files ! i;
                 buffer = bytes file;
                 embedded =
                   (if ftype file = ''image/jpeg'' \<or> ftype file = ''image/jpg''
                    then map_sum id Some (embedJpg buffer)
                    else if ftype file = ''image/png''
                    then map_sum id Some (embedPng buffer)
                    else Inr None)
             in (case embedded of
                   Inl e \<Rightarrow> and_then (warn (Warn_image (fname file))) (\<lambda>_. succeed pdfDoc)
                 | Inr None \<Rightarrow> succeed pdfDoc
                 | Inr (Some img) \<Rightarrow> succeed (addPage pdfDoc (drawImage img blank_page)))))
          create)
       (\<lambda>pdfDoc. succeed (save pdfDoc))"

text \<open>
  \<open>PDFUtils.createPDFFromImages\<close>: the same loop over the files, without progress reports.
\<close>

definition createPDFFromImages :: "'a file_obj list \<Rightarrow> 'a data run" where
  "createPDFFromImages imageFiles =
     and_then
       (for_each imageFiles
          (\<lambda>file pdfDoc.
             let buffer = bytes file;
                 embedded =
                   (if ftype file = ''image/jpeg'' \<or> ftype file = ''image/jpg''
                    then map_sum id Some (embedJpg buffer)
                    else if ftype file = ''image/png''
                    then map_sum id Some (embedPng buffer)
                    else Inr None)
             in (case embedded of
                   Inl e \<Rightarrow> and_then (warn (Warn_image (fname file))) (\<lambda>_. succeed pdfDoc)
                 | Inr None \<Rightarrow> succeed pdfDoc
                 | Inr (Some img) \<Rightarrow> succeed (addPage pdfDoc (drawImage img blank_page))))
          create)
       (\<lambda>pdfDoc. succeed (save pdfDoc))"

section \<open>Drawing on pages, and the renderer\<close>

text \<open>
  \<open>page.getSize()\<close> and the drawing calls (\<open>drawText\<close>, \<open>drawImage\<close>,
  \<open>drawRectangle\<close>, \<open>drawCircle\<close>, \<open>drawLine\<close>) on page \<open>i\<close> of the pages of a
  loaded document (\<open>pdfDoc.getPages()\<close>): they throw for a corrupted page, and a drawing
  is added after the page's content. The options of the calls (position, size, font, colour,
  opacity) are left out, and with them the exceptions the library throws for an option it
  rejects.
\<close>

definition getSize :: "nat \<Rightarrow> 'a document \<Rightarrow> error + unit" where
  "getSize i d =
     (if i < length d
      then (case d ! i of Readable p \<Rightarrow> Inr () | Corrupted \<Rightarrow> Inl (PageFailed i))
      else Inl (PageFailed i))"

definition draw :: "'a drawing \<Rightarrow> nat \<Rightarrow> 'a document \<Rightarrow> error + 'a document" where
  "draw g i d =
     (if i < length d
      then (case d ! i of
              Readable p \<Rightarrow> Inr (d[i := Readable (p\<lparr>content := content p @ [g]\<rparr>)])
            | Corrupted \<Rightarrow> Inl (PageFailed i))
      else Inl (PageFailed i))"

text \<open>
  A font that the library has embedded (\<open>pdfDoc.embedFont\<close>) says which texts it can
  encode and how wide a text is at a size. \<open>font.widthOfTextAtSize\<close> and
  \<open>page.drawText\<close> throw for a text the font cannot encode.
\<close>

record font =
  encodes :: "string \<Rightarrow> bool"
  text_width :: "string \<Rightarrow> rat \<Rightarrow> rat"

definition widthOfTextAtSize :: "font \<Rightarrow> string \<Rightarrow> rat \<Rightarrow> error + rat" where
  "widthOfTextAtSize font t fontSize =
     (if encodes font t then Inr (text_width font t fontSize) else Inl (EncodeFailed t))"

definition drawText :: "font \<Rightarrow> string \<Rightarrow> nat \<Rightarrow> 'a document \<Rightarrow> error + 'a document" where
  "drawText font t i d = (if encodes font t then draw (Text t) i d else Inl (EncodeFailed t))"

text \<open>
  The renderer is a second library, which reads the same bytes:
  \<open>pdfjsLib.getDocument(arrayBuffer).promise\<close>, \<open>numPages\<close>, and \<open>getPage(i)\<close>
  with page numbers from 1, which throws for a corrupted page. \<open>page.getTextContent()\<close>
  gives the texts on the page (\<open>textContent.items.map(item => item.str)\<close>). Rendering a
  page to a canvas and encoding the canvas (\<open>renderPageToCanvas\<close>, \<open>toDataURL\<close>)
  gives an image; what image is the parameter \<open>render\<close>, applied to the image format
  and the page (scale and quality are left out).
\<close>

definition getDocument :: "'a data \<Rightarrow> error + 'a document" where
  "getDocument b = (case b of PdfData d \<Rightarrow> Inr d | _ \<Rightarrow> Inl LoadFailed)"

definition numPages :: "'a document \<Rightarrow> nat" where
  "numPages d = length d"

definition getPage :: "'a document \<Rightarrow> nat \<Rightarrow> error + 'a page" where
  "getPage d i =
     (if 1 \<le> i \<and> i \<le> length d
      then (case d ! (i - 1) of Readable p \<Rightarrow> Inr p | Corrupted \<Rightarrow> Inl (PageFailed i))
      else Inl (PageFailed i))"

definition getTextContent :: "'a page \<Rightarrow> string list" where
  "getTextContent p = concat (map (\<lambda>g. case g of Text s \<Rightarrow> [s] | _ \<Rightarrow> []) (content p))"

text \<open>\<open>PDFUtils.compressPDF\<close>: every page is rendered and drawn as a JPEG on a new page.\<close>

definition compressPDF :: "(string \<Rightarrow> 'a page \<Rightarrow> 'a) \<Rightarrow> 'a file_obj \<Rightarrow> bool \<Rightarrow> 'a data run" where
  "compressPDF render file cb =
     and_then (lift (getDocument (bytes file))) (\<lambda>pdfSource.
       let totalPages = numPages pdfSource in
       and_then
         (for_each [1..<totalPages + 1]
            (\<lambda>i newPdf.
               and_then (report cb (percent_of (int i) (int totalPages))) (\<lambda>_.
               and_then (lift (getPage pdfSource i)) (\<lambda>page.
               let imgBytes = JpegData (render ''image/jpeg'' page) in
               and_then (lift (embedJpg imgBytes)) (\<lambda>jpgImage.
               succeed (addPage newPdf (drawImage jpgImage blank_page))))))
            create)
         (\<lambda>newPdf. succeed (save newPdf)))"

text \<open>
  \<open>PDFUtils.extractTextFromPDF\<close>: \<open>fullText += `\n--- Page ${i} ---\n${pageText}\n`\<close>.
\<close>

definition extractTextFromPDF :: "'a file_obj \<Rightarrow> string run" where
  "extractTextFromPDF file =
     and_then (lift (getDocument (bytes file))) (\<lambda>pdfDoc.
       for_each [1..<numPages pdfDoc + 1]
         (\<lambda>i fullText.
            and_then (lift (getPage pdfDoc i)) (\<lambda>page.
            let textContent = getTextContent page;
                pageText = join_with '' '' textContent
            in succeed (fullText @ [CHR 0x0A] @ ''--- Page '' @ show_nat i @ '' ---'' @ [CHR 0x0A]
                        @ pageText @ [CHR 0x0A])))
         [])"

text \<open>\<open>PDFUtils.convertPDFToImages\<close>: one image per page, with the page's number.\<close>

record 'a page_image =
  image_pageNumber :: nat
  image_blob :: 'a

definition convertPDFToImages ::
  "(string \<Rightarrow> 'a page \<Rightarrow> 'a) \<Rightarrow> 'a file_obj \<Rightarrow> string \<Rightarrow> bool \<Rightarrow> 'a page_image list run" where
  "convertPDFToImages render file format cb =
     and_then (lift (getDocument (bytes file))) (\<lambda>pdfDoc.
       for_each [1..<numPages pdfDoc + 1]
         (\<lambda>i images.
            and_then (report cb (percent_of (int i) (int (numPages pdfDoc)))) (\<lambda>_.
            and_then (lift (getPage pdfDoc i)) (\<lambda>page.
            succeed (images @ [\<lparr>image_pageNumber = i, image_blob = render format page\<rparr>]))))
         [])"

section \<open>The optimize tools\<close>

text \<open>
  \<open>OptimizeTools.compress\<close>: the quality level selects the quality and the scale of the
  rendering only.
\<close>

definition compress ::
  "(string \<Rightarrow> 'a page \<Rightarrow> 'a) \<Rightarrow> 'a file_obj \<Rightarrow> string \<Rightarrow> bool \<Rightarrow> 'a data run" where
  "compress render file quality cb = compressPDF render file cb"

text \<open>
  \<open>removeDuplicates\<close>: the loop's state is the set \<open>hashes\<close> and \<open>newPdf\<close>; the
  hash of a page is the first 500 characters of its texts joined.
\<close>

definition removeDuplicates :: "'a file_obj \<Rightarrow> bool \<Rightarrow> 'a data run" where
  "removeDuplicates file cb =
     and_then (lift (load (bytes file))) (\<lambda>srcPdf.
     let pageCount = getPageCount srcPdf in
     and_then (lift (getDocument (bytes file))) (\<lambda>pdfForRendering.
     and_then
       (for_each [0..<pageCount]
          (\<lambda>i (hashes, newPdf).
             and_then (report cb (percent_of (int i + 1) (int pageCount))) (\<lambda>_.
             and_then (lift (getPage pdfForRendering (i + 1))) (\<lambda>page.
             let textContent = getTextContent page;
                 hash = take 500 (concat textContent)
             in if hash \<notin> set hashes
                then and_then (lift (copyPage srcPdf (Some (int i)))) (\<lambda>copiedPage.
                     succeed (set_add hash hashes, addPage newPdf copiedPage))
                else succeed (hashes, newPdf))))
          ([], create))
       (\<lambda>(hashes, newPdf). succeed (save newPdf))))"

text \<open>\<open>linearize\<close> copies all the pages with one call of \<open>copyPages\<close>.\<close>

definition linearize :: "'a file_obj \<Rightarrow> bool \<Rightarrow> 'a data run" where
  "linearize file cb =
     and_then (report cb (Fin 30)) (\<lambda>_.
     and_then (lift (load (bytes file))) (\<lambda>srcPdf.
     and_then (report cb (Fin 60)) (\<lambda>_.
     and_then (lift (copyPages srcPdf (getPageIndices srcPdf))) (\<lambda>copiedPages.
     let newPdf = foldl addPage create copiedPages in
     and_then (report cb (Fin 90)) (\<lambda>_.
     let bytes = save newPdf in
     and_then (report cb (Fin 100)) (\<lambda>_.
     succeed bytes))))))"

section \<open>The security tools\<close>

text \<open>
  \<open>unlock\<close>: the \<open>try\<close> around the body rethrows every exception as
  \<open>Failed to unlock PDF: ...\<close>. Encryption is not modelled, so the password plays no part.
\<close>

definition unlock_body :: "'a file_obj \<Rightarrow> string \<Rightarrow> bool \<Rightarrow> 'a data run" where
  "unlock_body file password cb =
     and_then (lift (load (bytes file))) (\<lambda>pdfDoc.
     and_then (report cb (Fin 80)) (\<lambda>_.
     and_then (lift (copyPages pdfDoc (getPageIndices pdfDoc))) (\<lambda>copiedPages.
     let newPdf = foldl addPage create copiedPages in
     and_then (report cb (Fin 100)) (\<lambda>_.
     succeed (save newPdf)))))"

definition unlock :: "'a file_obj \<Rightarrow> string \<Rightarrow> bool \<Rightarrow> 'a data run" where
  "unlock file password cb =
     and_then (report cb (Fin 50)) (\<lambda>_.
     (case unlock_body file password cb of
        (ev, Inl e) \<Rightarrow> (ev, Inl (UnlockFailed e))
      | (ev, Inr r) \<Rightarrow> (ev, Inr r)))"

text \<open>
  \<open>addWatermark\<close> draws the text on every page, in the font it has embedded (the first
  argument) and at the default size.
\<close>

definition addWatermark :: "font \<Rightarrow> 'a file_obj \<Rightarrow> string \<Rightarrow> bool \<Rightarrow> 'a data run" where
  "addWatermark font file watermarkText cb =
     and_then (report cb (Fin 20)) (\<lambda>_.
     and_then (lift (load (bytes file))) (\<lambda>pdfDoc.
     let n = length pdfDoc in
     and_then (report cb (Fin 50)) (\<lambda>_.
     and_then
       (for_each [0..<n]
          (\<lambda>i doc.
             and_then (report cb (js_plus 50 (js_times (js_div (int i + 1) (int n)) 40))) (\<lambda>_.
             and_then (lift (getSize i doc)) (\<lambda>_.
             and_then (lift (widthOfTextAtSize font watermarkText 50)) (\<lambda>textWidth.
             lift (drawText font watermarkText i doc)))))
          pdfDoc)
       (\<lambda>doc.
          and_then (report cb (Fin 100)) (\<lambda>_.
          succeed (save doc))))))"

text \<open>
  \<open>addImageWatermark\<close>: the image is embedded before the loop, under a \<open>try\<close> that
  rethrows (a file declared neither JPEG nor PNG throws inside it); the loop draws the image
  on every page and reports no progress.
\<close>

definition addImageWatermark :: "'a file_obj \<Rightarrow> 'a file_obj \<Rightarrow> bool \<Rightarrow> 'a data run" where
  "addImageWatermark file imageFile cb =
     and_then (report cb (Fin 20)) (\<lambda>_.
     and_then (lift (load (bytes file))) (\<lambda>pdfDoc.
     and_then (report cb (Fin 40)) (\<lambda>_.
     let imageBuffer = bytes imageFile;
         embedded =
           (if ftype imageFile = ''image/jpeg'' \<or> ftype imageFile = ''image/jpg''
            then embedJpg imageBuffer
            else if ftype imageFile = ''image/png''
            then embedPng imageBuffer
            else Inl UnsupportedImage)
     in and_then (lift (case embedded of Inl e \<Rightarrow> Inl (WatermarkImageFailed e) | Inr img \<Rightarrow> Inr img))
          (\<lambda>watermarkImage.
     and_then (report cb (Fin 60)) (\<lambda>_.
     and_then
       (for_each [0..<length pdfDoc]
          (\<lambda>i doc.
             and_then (lift (getSize i doc)) (\<lambda>_.
             lift (draw (Picture watermarkImage) i doc)))
          pdfDoc)
       (\<lambda>doc.
          and_then (report cb (Fin 100)) (\<lambda>_.
          succeed (save doc))))))))"

text \<open>\<open>String.prototype.replace\<close> with a string pattern replaces the first occurrence.\<close>

fun replace_first :: "string \<Rightarrow> string \<Rightarrow> string \<Rightarrow> string" where
  "replace_first pat rep [] = (if pat = [] then rep else [])"
| "replace_first pat rep (c # cs) =
     (if take (length pat) (c # cs) = pat then rep @ drop (length pat) (c # cs)
      else c # replace_first pat rep cs)"

text \<open>
  \<open>addPageNumbers\<close>: of \<open>config\<close> the model keeps \<open>format\<close> and \<open>startPage\<close>, with
  their defaults (\<open>config.format || '{page}'\<close>, \<open>config.startPage || 1\<close>); pages before
  the start page are passed over. The first argument is the font it has embedded.
\<close>

record numbering_config =
  config_format :: string
  config_startPage :: int

definition addPageNumbers :: "font \<Rightarrow> 'a file_obj \<Rightarrow> numbering_config \<Rightarrow> bool \<Rightarrow> 'a data run" where
  "addPageNumbers font file config cb =
     and_then (report cb (Fin 20)) (\<lambda>_.
     and_then (lift (load (bytes file))) (\<lambda>pdfDoc.
     let n = length pdfDoc in
     and_then (report cb (Fin 50)) (\<lambda>_.
     let format = (if config_format config = [] then ''{page}'' else config_format config);
         startPage = (if config_startPage config = 0 then 1 else config_startPage config)
     in and_then
       (for_each [0..<n]
          (\<lambda>i doc.
             if int i < startPage - 1 then succeed doc
             else
               and_then (report cb (js_plus 50 (js_times (js_div (int i + 1) (int n)) 45))) (\<lambda>_.
               and_then (lift (getSize i doc)) (\<lambda>_.
               let pageText = replace_first ''{total}'' (show_nat n)
                                (replace_first ''{page}'' (show_nat (i + 1)) format)
               in and_then (lift (widthOfTextAtSize font pageText 12)) (\<lambda>textWidth.
                  lift (drawText font pageText i doc)))))
          pdfDoc)
       (\<lambda>doc.
          and_then (report cb (Fin 100)) (\<lambda>_.
          succeed (save doc))))))"

section \<open>The edit tools\<close>

text \<open>
  \<open>config.pages === 'all' ? pages.map((_, i) => i) : [parseInt(config.pages) - 1]\<close>, and the
  loop over these indices that \<open>addText\<close>, \<open>addImage\<close>, \<open>drawShape\<close>,
  \<open>addHighlight\<close> and \<open>redact\<close> share: an index outside the document is passed over.
  Of the configuration the model keeps \<open>pages\<close>, and the text or the shape's type;
  the first argument of \<open>addText\<close> is the font it has embedded.
\<close>

definition targetPages :: "string \<Rightarrow> 'a document \<Rightarrow> int option list" where
  "targetPages pages_config pages =
     (if pages_config = ''all'' then map (\<lambda>i. Some (int i)) [0..<length pages]
      else [minus_one (parseInt pages_config)])"

definition addText :: "font \<Rightarrow> 'a file_obj \<Rightarrow> string \<Rightarrow> string \<Rightarrow> bool \<Rightarrow> 'a data run" where
  "addText font file config_text config_pages cb =
     and_then (report cb (Fin 20)) (\<lambda>_.
     and_then (lift (load (bytes file))) (\<lambda>pdfDoc.
     and_then (report cb (Fin 50)) (\<lambda>_.
     and_then
       (for_each (targetPages config_pages pdfDoc)
          (\<lambda>pageIndex doc.
             (case pageIndex of
                Some v \<Rightarrow>
                  if 0 \<le> v \<and> v < int (length pdfDoc)
                  then and_then (lift (getSize (nat v) doc)) (\<lambda>_.
                       lift (drawText font config_text (nat v) doc))
                  else succeed doc
              | None \<Rightarrow> succeed doc))
          pdfDoc)
       (\<lambda>doc.
          and_then (report cb (Fin 90)) (\<lambda>_.
          let pdfBytes = save doc in
          and_then (report cb (Fin 100)) (\<lambda>_.
          succeed pdfBytes))))))"

text \<open>\<open>addImage\<close>: the image is embedded before the loop, under a \<open>try\<close> that rethrows.\<close>

definition addImage :: "'a file_obj \<Rightarrow> 'a file_obj \<Rightarrow> string \<Rightarrow> bool \<Rightarrow> 'a data run" where
  "addImage file imageFile config_pages cb =
     and_then (report cb (Fin 20)) (\<lambda>_.
     and_then (lift (load (bytes file))) (\<lambda>pdfDoc.
     and_then (report cb (Fin 40)) (\<lambda>_.
     let imageBuffer = bytes imageFile;
         embedded =
           (if ftype imageFile = ''image/jpeg'' \<or> ftype imageFile = ''image/jpg''
            then embedJpg imageBuffer
            else if ftype imageFile = ''image/png''
            then embedPng imageBuffer
            else Inl UnsupportedImage)
     in and_then (lift (case embedded of Inl e \<Rightarrow> Inl (ImageEmbeddingFailed e) | Inr img \<Rightarrow> Inr img))
          (\<lambda>embeddedImage.
     and_then (report cb (Fin 60)) (\<lambda>_.
     and_then
       (for_each (targetPages config_pages pdfDoc)
          (\<lambda>pageIndex doc.
             (case pageIndex of
                Some v \<Rightarrow>
                  if 0 \<le> v \<and> v < int (length pdfDoc)
                  then and_then (lift (getSize (nat v) doc)) (\<lambda>_.
                       lift (draw (Picture embeddedImage) (nat v) doc))
                  else succeed doc
              | None \<Rightarrow> succeed doc))
          pdfDoc)
       (\<lambda>doc.
          and_then (report cb (Fin 90)) (\<lambda>_.
          let pdfBytes = save doc in
          and_then (report cb (Fin 100)) (\<lambda>_.
          succeed pdfBytes))))))))"

text \<open>\<open>drawShape\<close>: a type other than rectangle, circle and line draws nothing.\<close>

definition drawShape :: "'a file_obj \<Rightarrow> string \<Rightarrow> string \<Rightarrow> bool \<Rightarrow> 'a data run" where
  "drawShape file config_type config_pages cb =
     and_then (report cb (Fin 20)) (\<lambda>_.
     and_then (lift (load (bytes file))) (\<lambda>pdfDoc.
     and_then (report cb (Fin 50)) (\<lambda>_.
     and_then
       (for_each (targetPages config_pages pdfDoc)
          (\<lambda>pageIndex doc.
             (case pageIndex of
                Some v \<Rightarrow>
                  if 0 \<le> v \<and> v < int (length pdfDoc)
                  then and_then (lift (getSize (nat v) doc)) (\<lambda>_.
                       if config_type = ''rectangle'' then lift (draw Rectangle (nat v) doc)
                       else if config_type = ''circle'' then lift (draw Circle (nat v) doc)
                       else if config_type = ''line'' then lift (draw Line (nat v) doc)
                       else succeed doc)
                  else succeed doc
              | None \<Rightarrow> succeed doc))
          pdfDoc)
       (\<lambda>doc.
          and_then (report cb (Fin 90)) (\<lambda>_.
          let pdfBytes = save doc in
          and_then (report cb (Fin 100)) (\<lambda>_.
          succeed pdfBytes))))))"

text \<open>\<open>addHighlight\<close> and \<open>redact\<close> draw a rectangle.\<close>

definition addHighlight :: "'a file_obj \<Rightarrow> string \<Rightarrow> bool \<Rightarrow> 'a data run" where
  "addHighlight file config_pages cb =
     and_then (report cb (Fin 20)) (\<lambda>_.
     and_then (lift (load (bytes file))) (\<lambda>pdfDoc.
     and_then (report cb (Fin 50)) (\<lambda>_.
     and_then
       (for_each (targetPages config_pages pdfDoc)
          (\<lambda>pageIndex doc.
             (case pageIndex of
                Some v \<Rightarrow>
                  if 0 \<le> v \<and> v < int (length pdfDoc)
                  then and_then (lift (getSize (nat v) doc)) (\<lambda>_.
                       lift (draw Rectangle (nat v) doc))
                  else succeed doc
              | None \<Rightarrow> succeed doc))
          pdfDoc)
       (\<lambda>doc.
          and_then (report cb (Fin 90)) (\<lambda>_.
          let pdfBytes = save doc in
          and_then (report cb (Fin 100)) (\<lambda>_.
          succeed pdfBytes))))))"

definition redact :: "'a file_obj \<Rightarrow> string \<Rightarrow> bool \<Rightarrow> 'a data run" where
  "redact file config_pages cb =
     and_then (report cb (Fin 20)) (\<lambda>_.
     and_then (lift (load (bytes file))) (\<lambda>pdfDoc.
     and_then (report cb (Fin 50)) (\<lambda>_.
     and_then
       (for_each (targetPages config_pages pdfDoc)
          (\<lambda>pageIndex doc.
             (case pageIndex of
                Some v \<Rightarrow>
                  if 0 \<le> v \<and> v < int (length pdfDoc)
                  then and_then (lift (getSize (nat v) doc)) (\<lambda>_.
                       lift (draw Rectangle (nat v) doc))
                  else succeed doc
              | None \<Rightarrow> succeed doc))
          pdfDoc)
       (\<lambda>doc.
          and_then (report cb (Fin 90)) (\<lambda>_.
          let pdfBytes = save doc in
          and_then (report cb (Fin 100)) (\<lambda>_.
          succeed pdfBytes))))))"

text \<open>
  \<open>addHeaderFooter\<close> draws the text on every page, with the page's number for
  \<open>{page}\<close> and the number of pages for \<open>{total}\<close>; the loop reports no progress.
\<close>

definition addHeaderFooter :: "font \<Rightarrow> 'a file_obj \<Rightarrow> string \<Rightarrow> bool \<Rightarrow> 'a data run" where
  "addHeaderFooter font file config_text cb =
     and_then (report cb (Fin 20)) (\<lambda>_.
     and_then (lift (load (bytes file))) (\<lambda>pdfDoc.
     let n = length pdfDoc in
     and_then (report cb (Fin 50)) (\<lambda>_.
     and_then
       (for_each [0..<n]
          (\<lambda>i doc.
             and_then (lift (getSize i doc)) (\<lambda>_.
             let text = replace_first ''{total}'' (show_nat n)
                          (replace_first ''{page}'' (show_nat (i + 1)) config_text)
             in and_then (lift (widthOfTextAtSize font text 10)) (\<lambda>textWidth.
                lift (drawText font text i doc))))
          pdfDoc)
       (\<lambda>doc.
          and_then (report cb (Fin 90)) (\<lambda>_.
          let pdfBytes = save doc in
          and_then (report cb (Fin 100)) (\<lambda>_.
          succeed pdfBytes))))))"

section \<open>Conversions from PDF\<close>

text \<open>
  The converters build their output from the text or the images of the pages, and the
  output is represented by what it is built from: the text (\<open>toText\<close>, \<open>toHTML\<close>),
  the non-blank lines of the text (the paragraphs of \<open>toWord\<close>, the rows of
  \<open>toExcel\<close>), the images of the pages (\<open>toImages\<close>, and the slides of
  \<open>toPowerPoint\<close>).
\<close>

definition toImages ::
  "(string \<Rightarrow> 'a page \<Rightarrow> 'a) \<Rightarrow> 'a file_obj \<Rightarrow> string \<Rightarrow> bool \<Rightarrow> 'a page_image list run" where
  "toImages render file format cb =
     (let mimeType = (if format = ''png'' then ''image/png'' else ''image/jpeg'')
      in convertPDFToImages render file mimeType cb)"

definition toText :: "'a file_obj \<Rightarrow> bool \<Rightarrow> string run" where
  "toText file cb =
     and_then (report cb (Fin 20)) (\<lambda>_.
     and_then (extractTextFromPDF file) (\<lambda>text.
     and_then (report cb (Fin 100)) (\<lambda>_.
     succeed text)))"

definition toWord :: "'a file_obj \<Rightarrow> bool \<Rightarrow> string list run" where
  "toWord file cb =
     and_then (report cb (Fin 20)) (\<lambda>_.
     and_then (extractTextFromPDF file) (\<lambda>text.
     and_then (report cb (Fin 60)) (\<lambda>_.
     let paragraphs = filter (\<lambda>line. trim line \<noteq> []) (split_on (CHR 0x0A) text) in
     and_then (report cb (Fin 90)) (\<lambda>_.
     and_then (report cb (Fin 100)) (\<lambda>_.
     succeed paragraphs)))))"

definition toExcel :: "'a file_obj \<Rightarrow> bool \<Rightarrow> string list list run" where
  "toExcel file cb =
     and_then (report cb (Fin 20)) (\<lambda>_.
     and_then (extractTextFromPDF file) (\<lambda>text.
     let lines = filter (\<lambda>line. trim line \<noteq> []) (split_on (CHR 0x0A) text) in
     and_then (report cb (Fin 60)) (\<lambda>_.
     let rows = map (\<lambda>line. [line]) lines in
     and_then (report cb (Fin 90)) (\<lambda>_.
     and_then (report cb (Fin 100)) (\<lambda>_.
     succeed rows)))))"

definition toHTML :: "'a file_obj \<Rightarrow> bool \<Rightarrow> string run" where
  "toHTML file cb =
     and_then (report cb (Fin 20)) (\<lambda>_.
     and_then (extractTextFromPDF file) (\<lambda>text.
     and_then (report cb (Fin 60)) (\<lambda>_.
     and_then (report cb (Fin 100)) (\<lambda>_.
     succeed text))))"

text \<open>
  \<open>toPowerPoint\<close> passes \<open>convertPDFToImages\<close> a callback of its own, which reports
  \<open>10 + progress * 0.6\<close> when \<open>toPowerPoint\<close> was given a callback; then a loop adds
  one slide per image.
\<close>

definition with_callback :: "(jsnum \<Rightarrow> event list) \<Rightarrow> 'r run \<Rightarrow> 'r run" where
  "with_callback k r = (concat (map (\<lambda>e. case e of Progress p \<Rightarrow> k p | _ \<Rightarrow> [e]) (fst r)), snd r)"

definition toPowerPoint :: "(string \<Rightarrow> 'a page \<Rightarrow> 'a) \<Rightarrow> 'a file_obj \<Rightarrow> bool \<Rightarrow> 'a list run" where
  "toPowerPoint render file cb =
     and_then (report cb (Fin 10)) (\<lambda>_.
     and_then
       (with_callback (\<lambda>progress. if cb then [Progress (js_plus 10 (js_times progress (6 / 10)))] else [])
          (convertPDFToImages render file ''image/jpeg'' True)) (\<lambda>images.
     and_then (report cb (Fin 70)) (\<lambda>_.
     and_then
       (for_each [0..<length images]
          (\<lambda>i slides.
             and_then (report cb (js_plus 70 (js_times (js_div (int i + 1) (int (length images))) 25))) (\<lambda>_.
             let imageBlob = image_blob (images ! i) in
             succeed (slides @ [imageBlob])))
          [])
       (\<lambda>slides.
          and_then (report cb (Fin 95)) (\<lambda>_.
          and_then (report cb (Fin 100)) (\<lambda>_.
          succeed slides))))))"

section \<open>Conversions of text to PDF\<close>

text \<open>
  The converters of text, HTML, Excel and Word files to PDF lay lines of text out on new
  pages: \<open>currentPage\<close> is the page added last, and \<open>yPosition\<close> goes down by the
  line height until it passes the margin, where a page is added. Sizes are fractions here,
  where the source computes with doubles. What the file holds is an argument: the text of
  the file (\<open>file.text()\<close>), the result of \<open>mammoth.extractRawText\<close>, or the sheets
  that \<open>XLSX.read\<close> gives, each with its name and its rows of cell texts.
\<close>

definition currentPage_drawText :: "font \<Rightarrow> string \<Rightarrow> 'a document \<Rightarrow> error + 'a document" where
  "currentPage_drawText font t d =
     (if d = [] then Inl (PageFailed 0) else drawText font t (length d - 1) d)"

definition textToPDF :: "font \<Rightarrow> string \<Rightarrow> bool \<Rightarrow> 'a data run" where
  "textToPDF font file_text cb =
     and_then (report cb (Fin 20)) (\<lambda>_.
     and_then (report cb (Fin 60)) (\<lambda>_.
     let lines = split_on (CHR 0x0A) file_text;
         pageHeight = (842 :: rat);
         margin = (50 :: rat);
         fontSize = (11 :: rat);
         lineHeight = fontSize * (13 / 10)
     in and_then
       (for_each lines
          (\<lambda>line (pdfDoc, yPosition).
             and_then (lift (currentPage_drawText font (take 80 line) pdfDoc)) (\<lambda>pdfDoc.
             let yPosition = yPosition - lineHeight in
             if yPosition < margin
             then succeed (addPage pdfDoc blank_page, pageHeight - margin)
             else succeed (pdfDoc, yPosition)))
          (addPage create blank_page, pageHeight - margin))
       (\<lambda>(pdfDoc, yPosition).
          and_then (report cb (Fin 100)) (\<lambda>_.
          succeed (save pdfDoc)))))"

text \<open>
  \<open>htmlToPDF\<close> first strips the tags (\<open>replace(/<[^>]*>/g, ' ')\<close>), replaces four
  entities and collapses every run of white space into one space.
\<close>

function strip_tags :: "string \<Rightarrow> string" where
  "strip_tags [] = []"
| "strip_tags (c # cs) =
     (if c = CHR ''<'' \<and> CHR ''>'' \<in> set cs
      then CHR '' '' # strip_tags (tl (dropWhile (\<lambda>x. x \<noteq> CHR ''>'') cs))
      else c # strip_tags cs)"
  by pat_completeness auto
termination
  by (relation "measure length")
    (auto simp: less_Suc_eq_le intro: order_trans [OF diff_le_self length_dropWhile_le])

function replace_all :: "string \<Rightarrow> string \<Rightarrow> string \<Rightarrow> string" where
  "replace_all pat rep [] = []"
| "replace_all pat rep (c # cs) =
     (if pat \<noteq> [] \<and> take (length pat) (c # cs) = pat
      then rep @ replace_all pat rep (drop (length pat) (c # cs))
      else c # replace_all pat rep cs)"
  by pat_completeness auto
termination
  by (relation "measure (\<lambda>(pat, rep, s). length s)") auto

function collapse_space :: "string \<Rightarrow> string" where
  "collapse_space [] = []"
| "collapse_space (c # cs) =
     (if is_space c then CHR '' '' # collapse_space (dropWhile is_space cs)
      else c # collapse_space cs)"
  by pat_completeness auto
termination
  by (relation "measure length")
    (auto simp: less_Suc_eq_le length_dropWhile_le)

definition stripped_html :: "string \<Rightarrow> string" where
  "stripped_html html =
     collapse_space
       (replace_all ''&gt;'' ''>''
         (replace_all ''&lt;'' ''<''
           (replace_all ''&amp;'' ''&''
             (replace_all ''&nbsp;'' '' ''
               (strip_tags html)))))"

definition htmlToPDF :: "font \<Rightarrow> string \<Rightarrow> bool \<Rightarrow> 'a data run" where
  "htmlToPDF font html cb =
     and_then (report cb (Fin 20)) (\<lambda>_.
     let stripped = stripped_html html
     in and_then (report cb (Fin 60)) (\<lambda>_.
     let lines = split_on (CHR 0x0A) stripped;
         pageHeight = (842 :: rat);
         margin = (50 :: rat);
         fontSize = (12 :: rat);
         lineHeight = fontSize * (15 / 10)
     in and_then
       (for_each lines
          (\<lambda>line (pdfDoc, yPosition).
             if trim line \<noteq> [] then
               and_then (lift (currentPage_drawText font (take 70 (trim line)) pdfDoc)) (\<lambda>pdfDoc.
               let yPosition = yPosition - lineHeight in
               if yPosition < margin
               then succeed (addPage pdfDoc blank_page, pageHeight - margin)
               else succeed (pdfDoc, yPosition))
             else succeed (pdfDoc, yPosition))
          (addPage create blank_page, pageHeight - margin))
       (\<lambda>(pdfDoc, yPosition).
          and_then (report cb (Fin 100)) (\<lambda>_.
          succeed (save pdfDoc)))))"

text \<open>
  \<open>excelToPDF\<close>: \<open>XLSX.read\<close> gives the sheets or throws; every sheet starts a
  page with its title; a row is drawn as its cells joined, cut at 100 characters.
\<close>

definition excelToPDF ::
  "font \<Rightarrow> error + (string \<times> string list list) list \<Rightarrow> bool \<Rightarrow> 'a data run" where
  "excelToPDF font read_result cb =
     and_then (report cb (Fin 20)) (\<lambda>_.
     and_then (lift read_result) (\<lambda>workbook.
     and_then (report cb (Fin 50)) (\<lambda>_.
     let pageHeight = (595 :: rat);
         margin = (40 :: rat);
         fontSize = (10 :: rat);
         lineHeight = fontSize * (15 / 10)
     in and_then
       (for_each [0..<length workbook]
          (\<lambda>s pdfDoc.
             let sheetName = fst (workbook ! s);
                 sheet_rows = snd (workbook ! s)
             in and_then
                  (lift (currentPage_drawText font (''Sheet: '' @ sheetName) (addPage pdfDoc blank_page)))
                  (\<lambda>pdfDoc.
             and_then
               (for_each sheet_rows
                  (\<lambda>row (pdfDoc, yPosition).
                     let rowText = join_with ''  |  '' row in
                     and_then (lift (currentPage_drawText font (take 100 rowText) pdfDoc)) (\<lambda>pdfDoc.
                     let yPosition = yPosition - lineHeight in
                     if yPosition < margin
                     then succeed (addPage pdfDoc blank_page, pageHeight - margin)
                     else succeed (pdfDoc, yPosition)))
                  (pdfDoc, pageHeight - margin - lineHeight * 2))
               (\<lambda>(pdfDoc, yPosition).
             and_then
               (report cb (js_plus 50 (js_times (js_div (int s + 1) (int (length workbook))) 40))) (\<lambda>_.
             succeed pdfDoc))))
          create)
       (\<lambda>pdfDoc.
          and_then (report cb (Fin 100)) (\<lambda>_.
          succeed (save pdfDoc))))))"

text \<open>
  \<open>wordToPDF\<close> wraps the words of a line: a word that would make the line wider than the
  page draws the line so far and starts the next one. The \<open>try\<close> around the body
  rethrows every exception, also one of the text extraction, as
  \<open>Failed to convert Word document: ...\<close>.
\<close>

definition wordToPDF_body :: "font \<Rightarrow> error + string \<Rightarrow> bool \<Rightarrow> 'a data run" where
  "wordToPDF_body font extracted cb =
     and_then (lift extracted) (\<lambda>file_text.
     and_then (report cb (Fin 60)) (\<lambda>_.
     let lines = split_on (CHR 0x0A) file_text;
         pageWidth = (595 :: rat);
         pageHeight = (842 :: rat);
         margin = (50 :: rat);
         fontSize = (12 :: rat);
         lineHeight = fontSize * (12 / 10);
         maxWidth = pageWidth - margin * 2
     in and_then
       (for_each lines
          (\<lambda>line (pdfDoc, yPosition).
             let words = split_on (CHR '' '') line in
             and_then
               (for_each words
                  (\<lambda>word (pdfDoc, yPosition, currentLine).
                     let testLine = currentLine @ word @ '' '' in
                     and_then (lift (widthOfTextAtSize font testLine fontSize)) (\<lambda>textWidth.
                     if textWidth > maxWidth \<and> currentLine \<noteq> [] then
                       and_then (lift (currentPage_drawText font (trim currentLine) pdfDoc)) (\<lambda>pdfDoc.
                       let yPosition = yPosition - lineHeight;
                           currentLine = word @ '' ''
                       in if yPosition < margin
                          then succeed (addPage pdfDoc blank_page, pageHeight - margin, currentLine)
                          else succeed (pdfDoc, yPosition, currentLine))
                     else succeed (pdfDoc, yPosition, testLine)))
                  (pdfDoc, yPosition, []))
               (\<lambda>(pdfDoc, yPosition, currentLine).
             and_then
               (if trim currentLine \<noteq> [] then
                  and_then (lift (currentPage_drawText font (trim currentLine) pdfDoc)) (\<lambda>pdfDoc.
                  succeed (pdfDoc, yPosition - lineHeight))
                else succeed (pdfDoc, yPosition))
               (\<lambda>(pdfDoc, yPosition).
             if yPosition < margin
             then succeed (addPage pdfDoc blank_page, pageHeight - margin)
             else succeed (pdfDoc, yPosition))))
          (addPage create blank_page, pageHeight - margin))
       (\<lambda>(pdfDoc, yPosition).
          and_then (report cb (Fin 90)) (\<lambda>_.
          let pdfBytes = save pdfDoc in
          and_then (report cb (Fin 100)) (\<lambda>_.
          succeed pdfBytes)))))"

definition wordToPDF :: "font \<Rightarrow> error + string \<Rightarrow> bool \<Rightarrow> 'a data run" where
  "wordToPDF font extracted cb =
     and_then (report cb (Fin 20)) (\<lambda>_.
     (case wordToPDF_body font extracted cb of
        (ev, Inl e) \<Rightarrow> (ev, Inl (ConversionFailed e))
      | (ev, Inr r) \<Rightarrow> (ev, Inr r)))"

section \<open>The recent-activity list\<close>

text \<open>
  The value stored under the key \<open>recentFiles\<close>: nothing, a JSON array of entries, or
  something else (text that does not parse, or parses to a value without \<open>unshift\<close>), on
  which \<open>saveRecentFile\<close> throws inside its \<open>try\<close> and only logs a warning.
  The environment gives the clock's readings and says whether \<open>setItem\<close> succeeds (it
  throws when the quota is exceeded). \<open>PDFUtils.formatFileSize\<close> computes with
  floating-point logarithms and is a parameter.
\<close>

record entry =
  entry_id :: int
  tool :: string
  entry_filename :: string
  fileSize :: string
  timestamp :: string

datatype storage = Absent | Unusable | Entries "entry list"

record environment =
  date_now :: int
  iso_string :: string
  setItem_succeeds :: bool

definition saveRecentFile ::
  "(nat \<Rightarrow> string) \<Rightarrow> environment \<Rightarrow> storage \<Rightarrow> string \<Rightarrow> string \<Rightarrow> nat \<Rightarrow> storage" where
  "saveRecentFile formatFileSize env store toolName fileName nbytes =
     (let newEntry = \<lparr>entry_id = date_now env, tool = toolName, entry_filename = fileName,
                       fileSize = formatFileSize nbytes, timestamp = iso_string env\<rparr>;
          setItem = (\<lambda>trimmed. if setItem_succeeds env then Entries trimmed else store)
      in case store of
           Absent \<Rightarrow> setItem (take 10 (newEntry # []))
         | Entries recent \<Rightarrow> setItem (take 10 (newEntry # recent))
         | Unusable \<Rightarrow> store)"

text \<open>The entries the list holds, and a sequence of calls of \<open>saveRecentFile\<close>.\<close>

definition recent_entries :: "storage \<Rightarrow> entry list" where
  "recent_entries store = (case store of Entries es \<Rightarrow> es | _ \<Rightarrow> [])"

record save_call =
  call_env :: environment
  call_tool :: string
  call_file :: string
  call_size :: nat

definition save_all :: "(nat \<Rightarrow> string) \<Rightarrow> storage \<Rightarrow> save_call list \<Rightarrow> storage" where
  "save_all formatFileSize store calls =
     foldl (\<lambda>st c. saveRecentFile formatFileSize (call_env c) st (call_tool c) (call_file c) (call_size c))
       store calls"

definition entry_of :: "(nat \<Rightarrow> string) \<Rightarrow> save_call \<Rightarrow> entry" where
  "entry_of formatFileSize c =
     \<lparr>entry_id = date_now (call_env c), tool = call_tool c, entry_filename = call_file c,
      fileSize = formatFileSize (call_size c), timestamp = iso_string (call_env c)\<rparr>"

section \<open>Notions used in the statements\<close>

text \<open>A document the library can process page by page: none of its pages is corrupted.\<close>

definition all_readable :: "'a document \<Rightarrow> bool" where
  "all_readable d = (Corrupted \<notin> set d)"

text \<open>The result or exception of a run, and the percent values passed to the callback.\<close>

definition outcome :: "'r run \<Rightarrow> error + 'r" where
  "outcome r = snd r"

definition progress_values :: "'r run \<Rightarrow> jsnum list" where
  "progress_values r = concat (map (\<lambda>e. case e of Progress p \<Rightarrow> [p] | _ \<Rightarrow> []) (fst r))"

definition warnings :: "'r run \<Rightarrow> event list" where
  "warnings r = filter (\<lambda>e. case e of Progress p \<Rightarrow> False | _ \<Rightarrow> True) (fst r)"

text \<open>Every percent value a run passes to the callback lies between 0 and 100.\<close>

definition events_ok :: "'r run \<Rightarrow> bool" where
  "events_ok r = list_all (\<lambda>e. case e of Progress p \<Rightarrow> in_percent_range p | _ \<Rightarrow> True) (fst r)"

text \<open>
  Page numbers that are \<open>NaN\<close> or integers a double holds exactly, and a document all of
  whose page angles are multiples of 90.
\<close>

definition safe_numbers :: "int option list \<Rightarrow> bool" where
  "safe_numbers ns =
     list_all (\<lambda>n. case n of None \<Rightarrow> True | Some v \<Rightarrow> \<bar>v\<bar> \<le> int max_safe_integer) ns"



text \<open>The name and number of the output for page \<open>i\<close> (counted from 0) of a split.\<close>

definition split_output :: "'a document \<Rightarrow> nat \<Rightarrow> 'a split_item" where
  "split_output d i =
     \<lparr>pageNumber = i + 1, blob = PdfData [d ! i], filename = ''page_'' @ show_nat (i + 1) @ ''.pdf''\<rparr>"

text \<open>A PDF file holding a given document.\<close>

definition pdf_file :: "'a document \<Rightarrow> 'a file_obj" where
  "pdf_file d = \<lparr>ftype = ''application/pdf'', fname = ''document.pdf'', bytes = PdfData d\<rparr>"

text \<open>The document a file holds (none for a file that is not a PDF).\<close>

definition doc_of :: "'a file_obj \<Rightarrow> 'a document" where
  "doc_of f = (case bytes f of PdfData d \<Rightarrow> d | _ \<Rightarrow> [])"

text \<open>
  The entries of a list of page numbers that name a page of a document of \<open>n\<close> pages,
  in the order and with the repetitions of the list.
\<close>

fun requested :: "nat \<Rightarrow> int option list \<Rightarrow> int list" where
  "requested n [] = []"
| "requested n (None # ns) = requested n ns"
| "requested n (Some v # ns) = (if 1 \<le> v \<and> v \<le> int n then v # requested n ns else requested n ns)"

text \<open>What one iteration of the loop of \<open>repair\<close> reports and logs for page \<open>i\<close>.\<close>

definition repair_events :: "bool \<Rightarrow> 'a document \<Rightarrow> nat \<Rightarrow> event list" where
  "repair_events cb d i =
     (if cb then [Progress (js_plus 50 (js_times (js_div (int i + 1) (int (length d))) 50))] else []) @
     (if d ! i = Corrupted then [Warn_page (i + 1)] else [])"

text \<open>
  The pages \<open>imagesToPDF\<close> makes of a file, and whether embedding the file throws: a
  file declared JPEG must hold JPEG data, a file declared PNG must hold PNG data, and a file
  declared neither is passed over.
\<close>

definition image_pages :: "'a file_obj \<Rightarrow> 'a document" where
  "image_pages f =
     (if ftype f = ''image/jpeg'' \<or> ftype f = ''image/jpg''
      then (case bytes f of JpegData x \<Rightarrow> [Readable \<lparr>content = [Picture x], rotation = 0\<rparr>] | _ \<Rightarrow> [])
      else if ftype f = ''image/png''
      then (case bytes f of PngData x \<Rightarrow> [Readable \<lparr>content = [Picture x], rotation = 0\<rparr>] | _ \<Rightarrow> [])
      else [])"

definition embed_throws :: "'a file_obj \<Rightarrow> bool" where
  "embed_throws f =
     (if ftype f = ''image/jpeg'' \<or> ftype f = ''image/jpg''
      then (case bytes f of JpegData x \<Rightarrow> False | _ \<Rightarrow> True)
      else if ftype f = ''image/png''
      then (case bytes f of PngData x \<Rightarrow> False | _ \<Rightarrow> True)
      else False)"

definition image_events :: "bool \<Rightarrow> 'a file_obj list \<Rightarrow> nat \<Rightarrow> event list" where
  "image_events cb files i =
     (if cb then [Progress (percent_of (int i + 1) (int (length files)))] else []) @
     (if embed_throws (files ! i) then [Warn_image (fname (files ! i))] else [])"

text \<open>
  Example pages, and an exponent notation for the examples: \<open>"1e+21"\<close> is the text of
  \<open>10^21\<close>, and no example passes a number that large.
\<close>

definition page_A :: "string page_object" where
  "page_A = Readable \<lparr>content = [Text ''A''], rotation = 0\<rparr>"

definition page_B :: "string page_object" where
  "page_B = Readable \<lparr>content = [Text ''B''], rotation = 90\<rparr>"

definition page_C :: "string page_object" where
  "page_C = Readable \<lparr>content = [Text ''C''], rotation = 0\<rparr>"

definition exponent_text :: "int \<Rightarrow> string" where
  "exponent_text v = ''1e+21''"

text \<open>
  A file whose second page is corrupted; a file declared JPEG whose bytes are no image, and
  a PNG file; a renderer for the examples.
\<close>

definition damaged_file :: "string file_obj" where
  "damaged_file = pdf_file [page_A, Corrupted, page_C]"

definition bad_image :: "string file_obj" where
  "bad_image = \<lparr>ftype = ''image/jpeg'', fname = ''a.jpg'', bytes = OtherData\<rparr>"

definition good_image :: "string file_obj" where
  "good_image = \<lparr>ftype = ''image/png'', fname = ''b.png'', bytes = PngData ''img''\<rparr>"

definition example_render :: "string \<Rightarrow> string page \<Rightarrow> string" where
  "example_render mimeType p = ''rendering''"

text \<open>
  A font for the examples: it encodes the printable ASCII characters, and every character
  is six tenths of the font size wide.
\<close>

text \<open>
  A text whose second line holds a control character, which the example font below cannot
  encode; an HTML page and a workbook with the same character.
\<close>

definition bad_text :: string where
  "bad_text = ''ok'' @ [CHR 0x0A, CHR 0x01] @ ''x''"

definition bad_html :: string where
  "bad_html = ''<p>'' @ [CHR 0x01] @ ''</p>''"

definition bad_workbook :: "(string \<times> string list list) list" where
  "bad_workbook = [(''Sheet1'', [[''a'', [CHR 0x01]]])]"

definition example_font :: font where
  "example_font =
     \<lparr>encodes = (\<lambda>t. list_all (\<lambda>c. 32 \<le> (of_char c :: nat) \<and> (of_char c :: nat) \<le> 126) t),
      text_width = (\<lambda>t fontSize. of_nat (length t) * fontSize * (6 / 10))\<rparr>"

text \<open>Eleven operations, recorded at the clock readings 1 to 11.\<close>

definition example_call :: "int \<Rightarrow> save_call" where
  "example_call t =
     \<lparr>call_env = \<lparr>date_now = t, iso_string = ''2024-01-01T00:00:00.000Z'', setItem_succeeds = True\<rparr>,
      call_tool = ''Merge PDFs'', call_file = ''merged.pdf'', call_size = 1024\<rparr>"

definition example_calls :: "save_call list" where
  "example_calls = map example_call [1, 2, 3, 4, 5, 6, 7, 8, 9, 10, 11]"

definition example_format :: "nat \<Rightarrow> string" where
  "example_format n = (if n = 0 then ''0 Bytes'' else ''1 KB'')"


section \<open>Proofs: decimal numerals and page ranges\<close>

lemma of_char_digit_char: "d < 10 \<Longrightarrow> (of_char (digit_char d) :: nat) = 48 + d"
  by (simp add: digit_char_def)

lemma char_neq_by_code: "(of_char c :: nat) \<noteq> of_char c' \<Longrightarrow> c \<noteq> c'"
  by auto

lemma digit_char_props:
  assumes "d < 10"
  shows "digit_val (digit_char d) = Some d" "is_digit 10 (digit_char d)" "\<not> is_space (digit_char d)"
    "digit_char d \<noteq> CHR ''-''" "digit_char d \<noteq> CHR '',''" "digit_char d \<noteq> CHR ''+''"
    "digit_char d \<noteq> CHR ''x''" "digit_char d \<noteq> CHR ''X''"
proof -
  show v: "digit_val (digit_char d) = Some d"
    using assms by (simp add: digit_val_def of_char_digit_char)
  show "is_digit 10 (digit_char d)"
    using assms by (simp add: is_digit_def v)
  show "digit_char d \<noteq> CHR ''-''" "digit_char d \<noteq> CHR '',''" "digit_char d \<noteq> CHR ''+''"
    "digit_char d \<noteq> CHR ''x''" "digit_char d \<noteq> CHR ''X''"
    using assms by (auto intro!: char_neq_by_code simp: of_char_digit_char)
  show "\<not> is_space (digit_char d)"
    unfolding is_space_def using assms
    by (auto dest!: arg_cong [where f = "of_char :: char \<Rightarrow> nat"] simp: of_char_digit_char)
qed

lemma show_nat_ne: "show_nat n \<noteq> []"
  by (subst show_nat.simps) simp

lemma show_nat_digits: "c \<in> set (show_nat n) \<Longrightarrow> \<exists>d<10. c = digit_char d"
proof (induction n rule: show_nat.induct)
  case (1 n)
  show ?case
  proof (cases "n < 10")
    case True
    with "1.prems" show ?thesis by (subst (asm) show_nat.simps) auto
  next
    case False
    with "1.prems" have "c \<in> set (show_nat (n div 10)) \<or> c = digit_char (n mod 10)"
      by (subst (asm) show_nat.simps) auto
    with False "1.IH" show ?thesis by (metis mod_less_divisor zero_less_numeral)
  qed
qed

lemma digits_value_snoc:
  "digits_value r (ds @ [c]) = digits_value r ds * r + (case digit_val c of None \<Rightarrow> 0 | Some d \<Rightarrow> d)"
  by (simp add: digits_value_def)

lemma digits_value_show_nat: "digits_value 10 (show_nat n) = n"
proof (induction n rule: show_nat.induct)
  case (1 n)
  show ?case
  proof (cases "n < 10")
    case True
    then show ?thesis
      by (subst show_nat.simps) (simp add: digits_value_def digit_char_props)
  next
    case False
    then have "digits_value 10 (show_nat n) = digits_value 10 (show_nat (n div 10)) * 10 + n mod 10"
      by (subst show_nat.simps) (simp add: digits_value_snoc digit_char_props)
    with False "1.IH" show ?thesis by simp
  qed
qed


lemma show_nat_all_digits: "\<forall>c \<in> set (show_nat n). is_digit 10 c"
  using show_nat_digits digit_char_props(2) by blast

lemma show_nat_no_space: "c \<in> set (show_nat n) \<Longrightarrow> \<not> is_space c"
  using show_nat_digits digit_char_props(3) by blast

lemma show_nat_no_sep: "CHR ''-'' \<notin> set (show_nat n)" "CHR '','' \<notin> set (show_nat n)"
proof -
  have "c \<noteq> CHR ''-'' \<and> c \<noteq> CHR '',''" if "c \<in> set (show_nat n)" for c
  proof -
    from that obtain d where "d < 10" "c = digit_char d"
      using show_nat_digits by blast
    then show ?thesis by (simp add: digit_char_props)
  qed
  then show "CHR ''-'' \<notin> set (show_nat n)" "CHR '','' \<notin> set (show_nat n)"
    by blast+
qed

lemma show_nat_hd: "\<exists>d<10. \<exists>r. show_nat n = digit_char d # r"
proof -
  obtain c r where cr: "show_nat n = c # r"
    using show_nat_ne [of n] by (cases "show_nat n") auto
  then have "c \<in> set (show_nat n)" by simp
  with show_nat_digits cr show ?thesis by blast
qed

lemma strip_sign_show_nat: "strip_sign (show_nat n) = (1, show_nat n)"
proof -
  obtain d r where "d < 10" "show_nat n = digit_char d # r"
    using show_nat_hd by blast
  then show ?thesis
    by (simp add: strip_sign_def digit_char_props)
qed

lemma strip_radix_show_nat: "strip_radix (show_nat n) = (10, show_nat n)"
proof (cases "show_nat n")
  case Nil
  then show ?thesis by (simp add: strip_radix_def)
next
  case (Cons c r)
  show ?thesis
  proof (cases r)
    case Nil
    with Cons show ?thesis by (simp add: strip_radix_def)
  next
    case (Cons x r')
    with \<open>show_nat n = c # r\<close> have "x \<in> set (show_nat n)" by simp
    then obtain d where "d < 10" "x = digit_char d"
      using show_nat_digits by blast
    then have "x \<noteq> CHR ''x''" "x \<noteq> CHR ''X''"
      by (simp_all add: digit_char_props)
    with Cons \<open>show_nat n = c # r\<close> show ?thesis
      by (simp add: strip_radix_def)
  qed
qed

lemma dropWhile_space_show_nat: "dropWhile is_space (show_nat n) = show_nat n"
proof -
  obtain d r where "d < 10" "show_nat n = digit_char d # r"
    using show_nat_hd by blast
  then show ?thesis by (simp add: digit_char_props)
qed

lemma parseInt_show_nat: "parseInt (show_nat n) = Some (int n)"
proof -
  have tw: "takeWhile (is_digit 10) (show_nat n) = show_nat n"
    using show_nat_all_digits by (simp add: takeWhile_eq_all_conv)
  show ?thesis
    by (simp add: parseInt_def dropWhile_space_show_nat strip_sign_show_nat strip_radix_show_nat
        tw show_nat_ne digits_value_show_nat)
qed

lemma trim_no_outer_space:
  assumes "s \<noteq> []" "\<not> is_space (hd s)" "\<not> is_space (last s)"
  shows "trim s = s"
proof -
  from assms have a: "dropWhile is_space s = s"
    by (cases s) auto
  obtain x xs where r: "rev s = x # xs"
    using assms(1) by (cases "rev s") auto
  have "hd (rev s) = last s"
    using assms(1) by (simp add: hd_rev)
  with r assms(3) have "\<not> is_space x" by simp
  with r have "dropWhile is_space (rev s) = rev s" by simp
  with a show ?thesis by (simp add: trim_def)
qed

lemma trim_show_nat: "trim (show_nat n) = show_nat n"
proof (rule trim_no_outer_space)
  show "show_nat n \<noteq> []" by (rule show_nat_ne)
  show "\<not> is_space (hd (show_nat n))"
    using show_nat_no_space [of "hd (show_nat n)" n] show_nat_ne [of n] by simp
  show "\<not> is_space (last (show_nat n))"
    using show_nat_no_space [of "last (show_nat n)" n] show_nat_ne [of n] by simp
qed

lemma split_on_no_sep: "c \<notin> set w \<Longrightarrow> split_on c w = [w]"
  by (induction w) auto

lemma split_on_append: "c \<notin> set w \<Longrightarrow> split_on c (w @ c # rest) = w # split_on c rest"
  by (induction w) auto


lemma range_loop_foldl:
  "range_loop i e pages = foldl (\<lambda>p x. set_add (Some x) p) pages [i..e]"
proof (induction i e pages rule: range_loop.induct)
  case (1 i e pages)
  show ?case
  proof (cases "i \<le> e")
    case True
    then have "[i..e] = i # [i + 1..e]" by (simp add: upto_rec1)
    with True "1.IH" show ?thesis by (subst range_loop.simps) simp
  next
    case False
    then show ?thesis by (subst range_loop.simps) simp
  qed
qed

lemma token_text_no_comma: "CHR '','' \<notin> set (token_text t)"
  by (cases t) (simp_all add: show_nat_no_sep)

lemma trim_range_text: "trim (show_nat a @ ''-'' @ show_nat b) = show_nat a @ ''-'' @ show_nat b"
proof (rule trim_no_outer_space)
  show "show_nat a @ ''-'' @ show_nat b \<noteq> []" by simp
  show "\<not> is_space (hd (show_nat a @ ''-'' @ show_nat b))"
    using show_nat_no_space [of "hd (show_nat a)" a] show_nat_ne [of a] by simp
  show "\<not> is_space (last (show_nat a @ ''-'' @ show_nat b))"
    using show_nat_no_space [of "last (show_nat b)" b] show_nat_ne [of b] by simp
qed

lemma add_part_token:
  "add_part pages (token_text t) = foldl (\<lambda>p x. set_add (Some x) p) pages (token_pages t)"
proof (cases t)
  case (Single n)
  then show ?thesis
    by (simp add: add_part_def trim_show_nat show_nat_no_sep parseInt_show_nat)
next
  case (Range a b)
  have "split_on CHR ''-'' (show_nat a @ CHR ''-'' # show_nat b) = [show_nat a, show_nat b]"
    by (simp add: split_on_append split_on_no_sep show_nat_no_sep)
  with Range show ?thesis
    using trim_range_text [of a b]
    by (simp add: add_part_def trim_show_nat parseInt_show_nat range_loop_foldl)
qed

lemma foldl_add_part:
  "foldl add_part pages (map token_text ts) =
     foldl (\<lambda>p x. set_add (Some x) p) pages (concat (map token_pages ts))"
  by (induction ts arbitrary: pages) (simp_all add: add_part_token)

lemma split_on_page_range_text:
  "ts \<noteq> [] \<Longrightarrow> split_on CHR '','' (page_range_text ts) = map token_text ts"
proof (induction ts rule: induct_list012)
  case 1
  then show ?case by simp
next
  case (2 t)
  then show ?case
    by (simp add: page_range_text_def split_on_no_sep token_text_no_comma)
next
  case (3 t u ts)
  then show ?case
    by (simp add: page_range_text_def split_on_append token_text_no_comma)
qed

lemma set_add_Some: "set_add (Some x) (map Some p) = map Some (set_add x p)"
  by (auto simp: set_add_def)

lemma foldl_set_add_Some:
  "foldl (\<lambda>p x. set_add (Some x) p) (map Some p) xs = map Some (foldl (\<lambda>p x. set_add x p) p xs)"
  by (induction xs arbitrary: p) (simp_all add: set_add_Some)

lemma set_foldl_set_add: "set (foldl (\<lambda>p x. set_add x p) p xs) = set p \<union> set xs"
  by (induction xs arbitrary: p) (auto simp: set_add_def)

lemma distinct_foldl_set_add: "distinct p \<Longrightarrow> distinct (foldl (\<lambda>p x. set_add x p) p xs)"
  by (induction xs arbitrary: p) (auto simp: set_add_def)

lemma insert_sorted_Some: "insert_sorted (Some x) (map Some ys) = map Some (insort x ys)"
  by (induction ys) (auto simp: comes_after_def)

lemma js_sort_Some: "js_sort (map Some xs) = map Some (sort xs)"
  unfolding js_sort_def sort_key_def
  by (induction xs) (simp_all add: insert_sorted_Some)

lemma sort_dedup: "sort (foldl (\<lambda>p x. set_add x p) [] xs) = sort (remdups xs)"
  by (rule sorted_distinct_set_unique)
    (simp_all add: set_foldl_set_add distinct_foldl_set_add)

text \<open>
  Claim C1. For an input made of one or more comma-separated tokens, each a page number or a
  hyphenated range \<open>a-b\<close> written in decimal, \<open>parsePageRange\<close> returns the page
  numbers the tokens denote (a number itself, a range every integer from \<open>a\<close> to \<open>b\<close>,
  a reversed range nothing), without repetition and in ascending order.
\<close>

theorem parsePageRange_tokens:
  assumes "ts \<noteq> []" and "\<forall>t \<in> set ts. token_ok t"
  shows "parsePageRange (page_range_text ts) =
           map Some (sort (remdups (concat (map token_pages ts)))) \<and>
         sorted_wrt (<) (sort (remdups (concat (map token_pages ts)))) \<and>
         set (sort (remdups (concat (map token_pages ts)))) = (\<Union>t \<in> set ts. set (token_pages t))"
proof -
  have "foldl add_part [] (map token_text ts) =
          map Some (foldl (\<lambda>p x. set_add x p) [] (concat (map token_pages ts)))"
    using foldl_set_add_Some [of "[]"] by (simp add: foldl_add_part)
  then have "parsePageRange (page_range_text ts) =
           map Some (sort (remdups (concat (map token_pages ts))))"
    using assms(1)
    by (simp add: parsePageRange_def split_on_page_range_text js_sort_Some sort_dedup)
  moreover have "sorted_wrt (<) (sort (remdups (concat (map token_pages ts))))"
    by (simp add: strict_sorted_iff)
  moreover have "set (sort (remdups (concat (map token_pages ts)))) = (\<Union>t \<in> set ts. set (token_pages t))"
    by simp
  ultimately show ?thesis by blast
qed

text \<open>
  The inputs \<open>"1,3,5-7"\<close>, \<open>"2-2"\<close>, \<open>"1,1,2"\<close> and \<open>"4,7-5"\<close>, by the theorem.
\<close>

theorem parsePageRange_tokens_witness:
  "parsePageRange ''1,3,5-7'' = [Some 1, Some 3, Some 5, Some 6, Some 7] \<and>
   parsePageRange ''2-2'' = [Some 2] \<and>
   parsePageRange ''1,1,2'' = [Some 1, Some 2] \<and>
   parsePageRange ''4,7-5'' = [Some 4]"
proof -
  have t: "page_range_text [Single 1, Single 3, Range 5 7] = ''1,3,5-7''"
    "page_range_text [Range 2 2] = ''2-2''"
    "page_range_text [Single 1, Single 1, Single 2] = ''1,1,2''"
    "page_range_text [Single 4, Range 7 5] = ''4,7-5''"
    by code_simp+
  have p: "sort (remdups (concat (map token_pages [Single 1, Single 3, Range 5 7]))) = [1, 3, 5, 6, 7]"
    "sort (remdups (concat (map token_pages [Range 2 2]))) = [2]"
    "sort (remdups (concat (map token_pages [Single 1, Single 1, Single 2]))) = [1, 2]"
    "sort (remdups (concat (map token_pages [Single 4, Range 7 5]))) = [4]"
    by code_simp+
  have ok: "\<forall>t \<in> set [Single 1, Single 3, Range 5 7]. token_ok t"
    "\<forall>t \<in> set [Range 2 2]. token_ok t"
    "\<forall>t \<in> set [Single 1, Single 1, Single 2]. token_ok t"
    "\<forall>t \<in> set [Single 4, Range 7 5]. token_ok t"
    by (simp_all add: max_safe_integer_def)
  show ?thesis
    using parsePageRange_tokens [OF _ ok(1)] parsePageRange_tokens [OF _ ok(2)]
      parsePageRange_tokens [OF _ ok(3)] parsePageRange_tokens [OF _ ok(4)]
    unfolding t p by simp
qed


section \<open>Proofs: runs and loops\<close>

lemma snd_and_then:
  "snd (and_then m f) = (case snd m of Inl e \<Rightarrow> Inl e | Inr x \<Rightarrow> snd (f x))"
  by (auto simp: and_then_def split: prod.splits sum.splits)

lemma fst_and_then:
  "fst (and_then m f) = (case snd m of Inl e \<Rightarrow> fst m | Inr x \<Rightarrow> fst m @ fst (f x))"
  by (auto simp: and_then_def split: prod.splits sum.splits)

lemma snd_basic [simp]:
  "snd (succeed x) = Inr x" "snd (throw e) = Inl e" "snd (lift r) = r"
  "snd (warn w) = Inr ()" "snd (report cb p) = Inr ()"
  by (simp_all add: succeed_def throw_def lift_def warn_def report_def)

lemma fst_basic [simp]:
  "fst (succeed x) = []" "fst (throw e) = []" "fst (lift r) = []"
  "fst (warn w) = [w]" "fst (report cb p) = (if cb then [Progress p] else [])"
  by (simp_all add: succeed_def throw_def lift_def warn_def report_def)

lemma snd_for_each_Cons:
  "snd (for_each (x # xs) body s) =
     (case snd (body x s) of Inl e \<Rightarrow> Inl e | Inr s' \<Rightarrow> snd (for_each xs body s'))"
  by (auto split: prod.splits sum.splits)

lemma fst_for_each_Cons:
  "fst (for_each (x # xs) body s) =
     (case snd (body x s) of
        Inl e \<Rightarrow> fst (body x s)
      | Inr s' \<Rightarrow> fst (body x s) @ fst (for_each xs body s'))"
  by (auto split: prod.splits sum.splits)

lemma for_each_invariant:
  assumes "I s"
    and "\<And>x s. x \<in> set xs \<Longrightarrow> I s \<Longrightarrow> snd (body x s) = Inr (step x s) \<and> I (step x s)"
  shows "snd (for_each xs body s) = Inr (foldl (\<lambda>s x. step x s) s xs) \<and> I (foldl (\<lambda>s x. step x s) s xs)"
  using assms
proof (induction xs arbitrary: s)
  case Nil
  then show ?case by simp
next
  case (Cons x xs)
  from Cons.prems have b: "snd (body x s) = Inr (step x s)" and i: "I (step x s)"
    by simp_all
  have "snd (for_each xs body (step x s)) = Inr (foldl (\<lambda>s x. step x s) (step x s) xs) \<and>
        I (foldl (\<lambda>s x. step x s) (step x s) xs)"
    using Cons.prems(2) by (intro Cons.IH [OF i]) simp
  with b show ?case by (simp add: snd_for_each_Cons del: for_each.simps)
qed

lemma for_each_succeeds:
  assumes "\<And>x s. x \<in> set xs \<Longrightarrow> snd (body x s) = Inr (step x s)"
  shows "snd (for_each xs body s) = Inr (foldl (\<lambda>s x. step x s) s xs)"
  using for_each_invariant [where I = "\<lambda>_. True" and body = body and step = step and xs = xs and s = s]
    assms by simp

lemma for_each_fails:
  assumes "x \<in> set xs" and "\<And>s. \<exists>e. snd (body x s) = Inl e"
  shows "\<exists>e. snd (for_each xs body s) = Inl e"
  using assms(1)
proof (induction xs arbitrary: s)
  case Nil
  then show ?case by simp
next
  case (Cons y ys)
  show ?case
  proof (cases "snd (body y s)")
    case (Inl e)
    then show ?thesis by (simp add: snd_for_each_Cons del: for_each.simps)
  next
    case (Inr s')
    with assms(2) [of s] have "x \<noteq> y" by auto
    with Cons.prems have "x \<in> set ys" by simp
    from Cons.IH [OF this, of s'] Inr show ?thesis
      by (simp add: snd_for_each_Cons del: for_each.simps)
  qed
qed

lemma for_each_fails_inv:
  assumes "I s" and "x \<in> set xs"
    and "\<And>s. I s \<Longrightarrow> \<exists>e. snd (body x s) = Inl e"
    and "\<And>y s s'. I s \<Longrightarrow> snd (body y s) = Inr s' \<Longrightarrow> I s'"
  shows "\<exists>e. snd (for_each xs body s) = Inl e"
  using assms(1,2)
proof (induction xs arbitrary: s)
  case Nil
  then show ?case by simp
next
  case (Cons y ys)
  show ?case
  proof (cases "snd (body y s)")
    case (Inl e)
    then show ?thesis by (simp add: snd_for_each_Cons del: for_each.simps)
  next
    case (Inr s')
    with assms(3) [OF Cons.prems(1)] have "x \<noteq> y" by auto
    with Cons.prems have "x \<in> set ys" by simp
    moreover from assms(4) [OF Cons.prems(1) Inr] have "I s'" .
    ultimately have "\<exists>e. snd (for_each ys body s') = Inl e" by (rule Cons.IH [rotated])
    with Inr show ?thesis
      by (simp add: snd_for_each_Cons del: for_each.simps)
  qed
qed

lemma foldl_snoc_map: "foldl (\<lambda>s x. s @ [g x]) s xs = s @ map g xs"
  by (induction xs arbitrary: s) simp_all

lemma copyPage_readable:
  "all_readable d \<Longrightarrow> i < length d \<Longrightarrow> \<exists>p. d ! i = Readable p \<and> copyPage d (Some (int i)) = Inr p"
  unfolding all_readable_def copyPage_def
  by (cases "d ! i") (auto simp: in_set_conv_nth)

lemma save_nonempty: "d \<noteq> [] \<Longrightarrow> save d = PdfData d"
  by (simp add: save_def getPageCount_def)

lemma save_empty: "save [] = PdfData [Readable blank_page]"
  by (simp add: save_def getPageCount_def addPage_def)

lemma reverse_readable:
  assumes "bytes file = PdfData d" "all_readable d"
  shows "snd (reverse file cb) = Inr (save (rev d))"
proof -
  have step: "snd (and_then (report cb (percent_of (int (length d) - int i) (int (length d)))) (\<lambda>_.
               and_then (lift (copyPage d (Some (int i)))) (\<lambda>copiedPage.
               succeed (addPage newPdf copiedPage)))) = Inr (newPdf @ [d ! i])"
    if "i \<in> set (rev [0..<length d])" for i newPdf
  proof -
    from that have "i < length d" by simp
    with copyPage_readable [OF assms(2)] obtain p where "d ! i = Readable p" "copyPage d (Some (int i)) = Inr p"
      by blast
    then show ?thesis by (simp add: snd_and_then addPage_def)
  qed
  have "snd (for_each (rev [0..<length d])
            (\<lambda>i newPdf.
               and_then (report cb (percent_of (int (length d) - int i) (int (length d)))) (\<lambda>_.
               and_then (lift (copyPage d (Some (int i)))) (\<lambda>copiedPage.
               succeed (addPage newPdf copiedPage))))
            create) = Inr (foldl (\<lambda>s i. s @ [d ! i]) create (rev [0..<length d]))"
    by (rule for_each_succeeds) (rule step)
  also have "foldl (\<lambda>s i. s @ [d ! i]) create (rev [0..<length d]) = rev d"
    by (simp add: foldl_snoc_map create_def rev_map [symmetric] map_nth)
  finally show ?thesis
    using assms(1) by (simp add: reverse_def snd_and_then load_def getPageCount_def Let_def)
qed


section \<open>Proofs: reverse\<close>

lemma outcome_simps: "outcome r = snd r"
  by (simp add: outcome_def)

text \<open>
  Claim C10, as amended. For a document of \<open>N\<close> pages that the library can copy,
  \<open>reverse\<close> saves the pages in reverse order. When \<open>N\<close> is at least 1 the result
  is a document of \<open>N\<close> pages whose page \<open>i\<close> (counted from 0) is page
  \<open>N - 1 - i\<close> of the source, and reversing the result gives the source's pages back.
  When the source has no page the result is a document of one blank page.
\<close>

theorem reverse_pages:
  assumes "bytes file = PdfData d" and "all_readable d"
  shows "outcome (reverse file cb) = Inr (save (rev d)) \<and>
         (d \<noteq> [] \<longrightarrow>
            outcome (reverse file cb) = Inr (PdfData (rev d)) \<and>
            length (rev d) = length d \<and>
            (\<forall>i < length d. rev d ! i = d ! (length d - 1 - i)) \<and>
            (\<forall>file'. bytes file' = PdfData (rev d) \<longrightarrow> outcome (reverse file' cb') = Inr (PdfData d))) \<and>
         (d = [] \<longrightarrow> outcome (reverse file cb) = Inr (PdfData [Readable blank_page]))"
proof -
  have r: "all_readable (rev d)"
    using assms(2) by (simp add: all_readable_def)
  have 1: "outcome (reverse file cb) = Inr (save (rev d))"
    using reverse_readable [OF assms, of cb] by (simp add: outcome_def)
  have 2: "\<forall>i < length d. rev d ! i = d ! (length d - 1 - i)"
    by (simp add: rev_nth)
  have 3: "outcome (reverse file' cb') = Inr (PdfData d)"
    if "d \<noteq> []" "bytes file' = PdfData (rev d)" for file'
    using reverse_readable [OF that(2) r, of cb'] that(1) by (simp add: outcome_def save_nonempty)
  from 1 2 3 show ?thesis
    by (auto simp: save_nonempty save_empty)
qed

text \<open>A document of three pages, reversed and reversed again.\<close>

theorem reverse_pages_witness:
  "all_readable [page_A, page_B, page_C] \<and>
   outcome (reverse (pdf_file [page_A, page_B, page_C]) True) = Inr (PdfData [page_C, page_B, page_A]) \<and>
   outcome (reverse (pdf_file [page_C, page_B, page_A]) True) = Inr (PdfData [page_A, page_B, page_C])"
proof -
  have a: "all_readable [page_A, page_B, page_C]"
    by (simp add: all_readable_def page_A_def page_B_def page_C_def)
  have b: "bytes (pdf_file [page_A, page_B, page_C]) = PdfData [page_A, page_B, page_C]"
    by (simp add: pdf_file_def)
  have c: "bytes (pdf_file [page_C, page_B, page_A]) = PdfData (rev [page_A, page_B, page_C])"
    by (simp add: pdf_file_def)
  show ?thesis
    using reverse_pages [OF b a, of True True] a c by (simp add: save_nonempty)
qed

text \<open>
  Claim C10 as stated fails for \<open>N = 0\<close>: the reverse of a document without pages has
  one page, a blank one.
\<close>

theorem reverse_page_less_counterexample:
  "getPageCount ([] :: string document) = 0 \<and>
   outcome (reverse (pdf_file ([] :: string document)) True) = Inr (PdfData [Readable blank_page]) \<and>
   getPageCount [Readable (blank_page :: string page)] = 1"
  using reverse_readable [of "pdf_file ([] :: string document)" "[]" True]
  by (simp add: outcome_def pdf_file_def all_readable_def save_empty getPageCount_def)


section \<open>Proofs: merge and split\<close>

lemma foldl_addPage: "foldl addPage m ps = m @ map Readable ps"
  by (induction ps arbitrary: m) (simp_all add: addPage_def)

lemma copyPages_readable_aux:
  assumes "all_readable d" "\<forall>i \<in> set is. i < length d"
  shows "\<exists>ps. copyPages d (map (\<lambda>i. Some (int i)) is) = Inr ps \<and> map Readable ps = map (\<lambda>i. d ! i) is"
  using assms(2)
proof (induction "is")
  case Nil
  then show ?case by simp
next
  case (Cons i "is")
  then obtain ps where ps: "copyPages d (map (\<lambda>i. Some (int i)) is) = Inr ps"
    "map Readable ps = map (\<lambda>i. d ! i) is"
    by auto
  from Cons.prems obtain p where "d ! i = Readable p" "copyPage d (Some (int i)) = Inr p"
    using copyPage_readable [OF assms(1), of i] by auto
  with ps show ?case by simp
qed

lemma copyPages_all:
  assumes "all_readable d"
  shows "\<exists>ps. copyPages d (getPageIndices d) = Inr ps \<and> map Readable ps = d"
  using copyPages_readable_aux [OF assms, of "[0..<length d]"]
  by (simp add: getPageIndices_def map_nth)

lemma foldl_count_append:
  "foldl (\<lambda>s x. (Suc (fst s), snd s @ g x)) s xs = (fst s + length xs, snd s @ concat (map g xs))"
  by (induction xs arbitrary: s) simp_all

lemma mergePDFs_readable:
  assumes "map bytes files = map PdfData docs" and "\<forall>d \<in> set docs. all_readable d"
  shows "snd (mergePDFs files cb) = Inr (save (concat docs))"
proof -
  have docs: "map doc_of files = docs"
  proof -
    have "map doc_of files = map (\<lambda>b. case b of PdfData d \<Rightarrow> d | _ \<Rightarrow> []) (map bytes files)"
      by (simp add: doc_of_def comp_def)
    also have "\<dots> = docs" unfolding assms(1) by (simp add: comp_def)
    finally show ?thesis .
  qed
  have step: "snd ((\<lambda>file (processedFiles, mergedPdf).
             let processedFiles' = processedFiles + 1 in
             and_then (report cb (percent_of (int processedFiles') (int (length files)))) (\<lambda>_.
             and_then (lift (load (bytes file))) (\<lambda>pdf.
             and_then (lift (copyPages pdf (getPageIndices pdf))) (\<lambda>copiedPages.
             succeed (processedFiles', foldl addPage mergedPdf copiedPages))))) f s)
           = Inr (Suc (fst s), snd s @ doc_of f)"
    if "f \<in> set files" for f and s :: "nat \<times> 'a document"
  proof -
    from that have "bytes f \<in> set (map PdfData docs)"
      unfolding assms(1) [symmetric] by simp
    then obtain d where d: "bytes f = PdfData d" "d \<in> set docs" by auto
    with assms(2) have "all_readable d" by simp
    then obtain ps where "copyPages d (getPageIndices d) = Inr ps" "map Readable ps = d"
      using copyPages_all by blast
    with d show ?thesis
      by (cases s) (simp add: snd_and_then load_def doc_of_def foldl_addPage)
  qed
  have "snd (for_each files
          (\<lambda>file (processedFiles, mergedPdf).
             let processedFiles' = processedFiles + 1 in
             and_then (report cb (percent_of (int processedFiles') (int (length files)))) (\<lambda>_.
             and_then (lift (load (bytes file))) (\<lambda>pdf.
             and_then (lift (copyPages pdf (getPageIndices pdf))) (\<lambda>copiedPages.
             succeed (processedFiles', foldl addPage mergedPdf copiedPages)))))
          (0 :: nat, create))
        = Inr (foldl (\<lambda>s file. (Suc (fst s), snd s @ doc_of file)) (0, create) files)"
    by (rule for_each_succeeds) (rule step)
  then show ?thesis
    by (simp add: mergePDFs_def snd_and_then foldl_count_append create_def docs)
qed


text \<open>
  Claim C5. Merging files whose documents the library can copy saves the concatenation of
  their pages in the order of the files; for two documents of one page each, the result has
  two pages, the first document's page and then the second's. (When the files hold no page
  at all, what is saved is one blank page.)
\<close>

theorem merge_concatenates:
  assumes "map bytes files = map PdfData docs" and "\<forall>d \<in> set docs. all_readable d"
  shows "outcome (merge files cb) = Inr (save (concat docs)) \<and>
         (concat docs \<noteq> [] \<longrightarrow> outcome (merge files cb) = Inr (PdfData (concat docs))) \<and>
         (\<forall>a b. docs = [[a], [b]] \<longrightarrow> outcome (merge files cb) = Inr (PdfData [a, b]))"
  using mergePDFs_readable [OF assms, of cb]
  by (auto simp: outcome_def merge_def save_nonempty)

text \<open>Two documents of one page, and documents of two pages and one page.\<close>

theorem merge_concatenates_witness:
  "outcome (merge [pdf_file [page_A], pdf_file [page_B]] True) = Inr (PdfData [page_A, page_B]) \<and>
   outcome (merge [pdf_file [page_C, page_A], pdf_file [page_B]] True) = Inr (PdfData [page_C, page_A, page_B])"
proof -
  have r: "\<forall>d \<in> set [[page_A], [page_B]]. all_readable d"
    "\<forall>d \<in> set [[page_C, page_A], [page_B]]. all_readable d"
    by (simp_all add: all_readable_def page_A_def page_B_def page_C_def)
  have b: "map bytes [pdf_file [page_A], pdf_file [page_B]] = map PdfData [[page_A], [page_B]]"
    "map bytes [pdf_file [page_C, page_A], pdf_file [page_B]] = map PdfData [[page_C, page_A], [page_B]]"
    by (simp_all add: pdf_file_def)
  show ?thesis
    using merge_concatenates [OF b(1) r(1), of True] merge_concatenates [OF b(2) r(2), of True]
    by (simp add: save_nonempty)
qed

lemma splitPDF_readable:
  assumes "bytes f = PdfData d" and "all_readable d"
  shows "snd (splitPDF f cb) = Inr (map (split_output d) [0..<length d])"
proof -
  have step: "snd (and_then (report cb (percent_of (int i + 1) (int (length d)))) (\<lambda>_.
            and_then (lift (copyPage d (Some (int i)))) (\<lambda>copiedPage.
            let newPdf = addPage create copiedPage;
                pdfBytes = save newPdf
            in succeed (splitPDFs @
                 [\<lparr>pageNumber = i + 1, blob = pdfBytes,
                   filename = ''page_'' @ show_nat (i + 1) @ ''.pdf''\<rparr>]))))
          = Inr (splitPDFs @ [split_output d i])"
    if "i \<in> set [0..<length d]" for i and splitPDFs :: "'a split_item list"
  proof -
    from that have "i < length d" by simp
    with copyPage_readable [OF assms(2)] obtain p where "d ! i = Readable p" "copyPage d (Some (int i)) = Inr p"
      by blast
    then show ?thesis
      by (simp add: snd_and_then addPage_def create_def save_def getPageCount_def split_output_def)
  qed
  have "snd (for_each [0..<length d]
         (\<lambda>i splitPDFs.
            and_then (report cb (percent_of (int i + 1) (int (length d)))) (\<lambda>_.
            and_then (lift (copyPage d (Some (int i)))) (\<lambda>copiedPage.
            let newPdf = addPage create copiedPage;
                pdfBytes = save newPdf
            in succeed (splitPDFs @
                 [\<lparr>pageNumber = i + 1, blob = pdfBytes,
                   filename = ''page_'' @ show_nat (i + 1) @ ''.pdf''\<rparr>]))))
         []) = Inr (foldl (\<lambda>s i. s @ [split_output d i]) [] [0..<length d])"
    by (rule for_each_succeeds) (rule step)
  then show ?thesis
    using assms(1)
    by (simp add: splitPDF_def snd_and_then load_def getPageCount_def Let_def foldl_snoc_map)
qed

text \<open>
  Claim C6. Splitting a document of \<open>N\<close> pages that the library can copy returns \<open>N\<close>
  outputs in the order of the source; output \<open>i\<close> (from 1) is a document holding page \<open>i\<close>
  alone, with \<open>pageNumber\<close> \<open>i\<close> and the name \<open>page_i.pdf\<close>.
\<close>

theorem split_outputs:
  assumes "bytes f = PdfData d" and "all_readable d"
  shows "\<exists>outs. outcome (split f cb) = Inr outs \<and> length outs = length d \<and>
           (\<forall>i < length d.
              pageNumber (outs ! i) = i + 1 \<and>
              blob (outs ! i) = PdfData [d ! i] \<and>
              filename (outs ! i) = ''page_'' @ show_nat (i + 1) @ ''.pdf'')"
  using splitPDF_readable [OF assms, of cb]
  by (simp add: outcome_def split_def split_output_def)

text \<open>A document of two pages.\<close>

theorem split_outputs_witness:
  "all_readable [page_A, page_B] \<and>
   outcome (split (pdf_file [page_A, page_B]) True) =
     Inr [\<lparr>pageNumber = 1, blob = PdfData [page_A], filename = ''page_1.pdf''\<rparr>,
          \<lparr>pageNumber = 2, blob = PdfData [page_B], filename = ''page_2.pdf''\<rparr>]"
proof -
  have a: "all_readable [page_A, page_B]"
    by (simp add: all_readable_def page_A_def page_B_def)
  have b: "bytes (pdf_file [page_A, page_B]) = PdfData [page_A, page_B]"
    by (simp add: pdf_file_def)
  have n: "show_nat (Suc 0) = ''1''" "show_nat (Suc (Suc 0)) = ''2''"
    by code_simp+
  from split_outputs [OF b a, of True]
  obtain outs where o1: "outcome (split (pdf_file [page_A, page_B]) True) = Inr outs"
    and o2: "length outs = length [page_A, page_B]"
    and o3: "\<forall>i < length [page_A, page_B].
              pageNumber (outs ! i) = i + 1 \<and>
              blob (outs ! i) = PdfData [[page_A, page_B] ! i] \<and>
              filename (outs ! i) = ''page_'' @ show_nat (i + 1) @ ''.pdf''"
    by (elim exE conjE)
  from o3 [rule_format, of 0] o3 [rule_format, of 1]
  have o: "pageNumber (outs ! 0) = 1 \<and> blob (outs ! 0) = PdfData [page_A] \<and> filename (outs ! 0) = ''page_1.pdf''"
    "pageNumber (outs ! 1) = 2 \<and> blob (outs ! 1) = PdfData [page_B] \<and> filename (outs ! 1) = ''page_2.pdf''"
    by (simp_all add: n)
  from o2 obtain x y where xy: "outs = [x, y]"
    by (cases outs; cases "tl outs") auto
  with o have "x = \<lparr>pageNumber = 1, blob = PdfData [page_A], filename = ''page_1.pdf''\<rparr>"
    "y = \<lparr>pageNumber = 2, blob = PdfData [page_B], filename = ''page_2.pdf''\<rparr>"
    by simp_all
  with o1 xy a show ?thesis by simp
qed


section \<open>Proofs: rotation\<close>

















section \<open>Proofs: extract and delete\<close>

lemma parseInt_show_int: "parseInt (show_int v) = Some v"
proof (cases "v < 0")
  case False
  then show ?thesis by (simp add: show_int_def parseInt_show_nat)
next
  case True
  have tw: "takeWhile (is_digit 10) (show_nat n) = show_nat n" for n
    using show_nat_all_digits by (simp add: takeWhile_eq_all_conv)
  have "\<not> is_space CHR ''-''" by (simp add: is_space_def)
  with True show ?thesis
    by (simp add: show_int_def parseInt_def strip_sign_def strip_radix_show_nat tw show_nat_ne
        digits_value_show_nat)
qed

lemma parseInt_NaN: "parseInt ''NaN'' = None"
  by code_simp

lemma parseInt_number_id:
  assumes "case n of None \<Rightarrow> True | Some v \<Rightarrow> \<bar>v\<bar> \<le> int max_safe_integer"
  shows "parseInt_number exponential n = n"
proof (cases n)
  case None
  then show ?thesis by (simp add: parseInt_number_def number_toString_def parseInt_NaN)
next
  case (Some v)
  with assms have "\<bar>v\<bar> < 10 ^ 21" by (simp add: max_safe_integer_def)
  with Some show ?thesis by (simp add: parseInt_number_def number_toString_def parseInt_show_int)
qed

text \<open>
  From \<open>1e21\<close> on the string of a number is in exponent notation, of which
  \<open>parseInt\<close> reads the digits before the \<open>e\<close>: \<open>parseInt(1e21)\<close> is 1.
\<close>

lemma parseInt_number_exponent: "parseInt_number exponent_text (Some (10 ^ 21)) = Some 1"
proof -
  have "parseInt ''1e+21'' = Some 1"
    by code_simp
  then show ?thesis
    by (simp add: parseInt_number_def number_toString_def exponent_text_def)
qed

lemma map_parseInt_number:
  "safe_numbers ns \<Longrightarrow>
   map (\<lambda>n. minus_one (parseInt_number exponential n)) ns = map minus_one ns"
  by (simp add: safe_numbers_def list_all_iff parseInt_number_id)

lemma filter_valid_requested:
  "filter (valid_index n) (map minus_one nums) = map (\<lambda>v. Some (v - 1)) (requested n nums)"
  by (induction n nums rule: requested.induct)
    (auto simp: valid_index_def minus_one_def)

lemma requested_range: "v \<in> set (requested n nums) \<Longrightarrow> 1 \<le> v \<and> v \<le> int n"
  by (induction n nums rule: requested.induct) (auto split: if_splits)

lemma requested_set: "set (requested n nums) = {v. Some v \<in> set nums \<and> 1 \<le> v \<and> v \<le> int n}"
  by (induction n nums rule: requested.induct) auto

lemma insort_map_pred: "insort (x - 1) (map (\<lambda>v. v - 1) ys) = map (\<lambda>v. v - (1::int)) (insort x ys)"
  by (induction ys) simp_all

lemma sort_map_pred: "sort (map (\<lambda>v. v - 1) xs) = map (\<lambda>v. v - (1::int)) (sort xs)"
  unfolding sort_key_def by (induction xs) (simp_all add: insort_map_pred)

lemma copyPage_readable_int:
  assumes "all_readable d" "0 \<le> w" "w < int (length d)"
  shows "\<exists>p. d ! nat w = Readable p \<and> copyPage d (Some w) = Inr p"
  using copyPage_readable [OF assms(1), of "nat w"] assms(2,3) by simp

lemma extract_readable:
  assumes "bytes f = PdfData d" and "all_readable d" and "safe_numbers nums"
  shows "snd (extract exponential f nums cb) =
           Inr (save (map (\<lambda>v. d ! nat (v - 1)) (sort (requested (length d) nums))))"
proof -
  define ws where "ws = map (\<lambda>v. v - 1) (sort (requested (length d) nums))"
  note mp = map_parseInt_number [OF assms(3), of exponential]
  have vp: "js_sort (filter (valid_index (length d)) (map minus_one nums)) = map Some ws"
    using js_sort_Some [of "map (\<lambda>v. v - 1) (requested (length d) nums)"]
    by (simp add: filter_valid_requested ws_def sort_map_pred comp_def)
  have rng: "0 \<le> w \<and> w < int (length d)" if "w \<in> set ws" for w
    using that requested_range [of _ "length d" nums] by (fastforce simp: ws_def)
  have step: "snd (and_then (report cb (percent_of (int i + 1) (int (length (map Some ws))))) (\<lambda>_.
                  let pageIndex = map Some ws ! i in
                  and_then (lift (copyPage d pageIndex)) (\<lambda>copiedPage.
                  succeed (addPage newPdf copiedPage)))) = Inr (newPdf @ [d ! nat (ws ! i)])"
    if "i \<in> set [0..<length (map Some ws)]" for i newPdf
  proof -
    from that have i: "i < length ws" by simp
    then have "ws ! i \<in> set ws" by simp
    from rng [OF this] obtain p where "d ! nat (ws ! i) = Readable p" "copyPage d (Some (ws ! i)) = Inr p"
      using copyPage_readable_int [OF assms(2)] by blast
    with i show ?thesis by (simp add: snd_and_then addPage_def)
  qed
  have "snd (for_each [0..<length (map Some ws)]
               (\<lambda>i newPdf.
                  and_then (report cb (percent_of (int i + 1) (int (length (map Some ws))))) (\<lambda>_.
                  let pageIndex = map Some ws ! i in
                  and_then (lift (copyPage d pageIndex)) (\<lambda>copiedPage.
                  succeed (addPage newPdf copiedPage))))
               create) = Inr (foldl (\<lambda>s i. s @ [d ! nat (ws ! i)]) create [0..<length (map Some ws)])"
    by (rule for_each_succeeds) (rule step)
  moreover have "map (\<lambda>i. d ! nat (ws ! i)) [0..<length ws] = map (\<lambda>w. d ! nat w) ws"
    by (rule nth_equalityI) simp_all
  ultimately show ?thesis
    using assms(1)
    by (simp add: extract_def snd_and_then load_def getPageCount_def Let_def mp vp
        foldl_snoc_map create_def) (simp add: ws_def comp_def)
qed

lemma foldl_keep:
  "snd (foldl (\<lambda>s i. if K i then (c s, snd s @ [g i]) else s) s xs) = snd s @ map g (filter K xs)"
  by (induction xs arbitrary: s) simp_all

lemma deleteSet_has:
  "(Some (int i) \<in> set (foldl (\<lambda>s n. set_add n s) [] (map minus_one dels)))
     = (Some (int i + 1) \<in> set dels)"
proof -
  have "Some (int i) \<in> minus_one ` set dels \<longleftrightarrow> Some (int i + 1) \<in> set dels"
  proof
    assume "Some (int i) \<in> minus_one ` set dels"
    then obtain x where x: "x \<in> set dels" "minus_one x = Some (int i)" by auto
    then obtain z where z: "x = Some z" "z - 1 = int i"
      by (cases x) (auto simp: minus_one_def)
    then have "z = int i + 1" by simp
    with x z show "Some (int i + 1) \<in> set dels" by simp
  next
    assume "Some (int i + 1) \<in> set dels"
    then have "minus_one (Some (int i + 1)) \<in> minus_one ` set dels" by blast
    then show "Some (int i) \<in> minus_one ` set dels" by (simp add: minus_one_def)
  qed
  then show ?thesis
    by (simp add: set_foldl_set_add)
qed

lemma deletePages_readable:
  assumes "bytes f = PdfData d" and "all_readable d" and "safe_numbers dels"
  shows "snd (deletePages exponential f dels cb) =
           Inr (save (map (\<lambda>i. d ! i) (filter (\<lambda>i. Some (int i + 1) \<notin> set dels) [0..<length d])))"
proof -
  define deleteSet where
    "deleteSet = foldl (\<lambda>s n. set_add n s) [] (map minus_one dels)"
  note mp = map_parseInt_number [OF assms(3), of exponential]
  have kept: "(Some (int i) \<notin> set deleteSet) = (Some (int i + 1) \<notin> set dels)" for i
    by (simp add: deleteSet_def deleteSet_has)
  let ?body = "\<lambda>i (processedCount, newPdf).
                  if Some (int i) \<notin> set deleteSet then
                    (let processedCount' = (if cb then processedCount + 1 else processedCount) in
                     and_then
                       (report cb (percent_of (int processedCount')
                          (int (length d) - int (length deleteSet)))) (\<lambda>_.
                     and_then (lift (copyPage d (Some (int i)))) (\<lambda>copiedPage.
                     succeed (processedCount', addPage newPdf copiedPage))))
                  else succeed (processedCount, newPdf)"
  let ?step = "\<lambda>s i. if Some (int i + 1) \<notin> set dels
                  then ((if cb then fst s + 1 else fst s), snd s @ [d ! i]) else s"
  have step: "snd (?body i s) = Inr (?step s i)"
    if "i \<in> set [0..<length d]" for i and s :: "nat \<times> 'a document"
  proof -
    from that have "i < length d" by simp
    with copyPage_readable [OF assms(2)] obtain p where "d ! i = Readable p" "copyPage d (Some (int i)) = Inr p"
      by blast
    then show ?thesis
      by (cases s) (simp add: snd_and_then addPage_def kept Let_def)
  qed
  have "snd (for_each [0..<length d] ?body (0, create)) = Inr (foldl ?step (0, create) [0..<length d])"
    by (rule for_each_succeeds [where step = "\<lambda>i s. ?step s i"]) (rule step)
  then have "snd (deletePages exponential f dels cb)
      = Inr (save (snd (foldl ?step (0 :: nat, create) [0..<length d])))"
    using assms(1)
    by (simp add: deletePages_def snd_and_then load_def getPageCount_def Let_def mp
        deleteSet_def [symmetric] split_beta)
  also have "snd (foldl ?step (0, create) [0..<length d])
      = map (\<lambda>i. d ! i) (filter (\<lambda>i. Some (int i + 1) \<notin> set dels) [0..<length d])"
    using foldl_keep [of "\<lambda>i. Some (int i + 1) \<notin> set dels" "\<lambda>s. if cb then fst s + 1 else fst s"
        "\<lambda>i. d ! i" "(0, create)" "[0..<length d]"]
    by (simp add: create_def)
  finally show ?thesis .
qed


lemma length_filter_upt_compl:
  "length (filter P [0..<n]) = n - card {i. i < n \<and> \<not> P i}"
proof -
  have "length (filter (\<lambda>i. \<not> P i) [0..<n]) = card {i. i < n \<and> \<not> P i}"
  proof -
    have "{i. i < length [0..<n] \<and> \<not> P ([0..<n] ! i)} = {i. i < n \<and> \<not> P i}" by auto
    then show ?thesis by (simp add: length_filter_conv_card)
  qed
  moreover have "length (filter P [0..<n]) + length (filter (\<lambda>i. \<not> P i) [0..<n]) = n"
    using sum_length_filter_compl [of P "[0..<n]"] by simp
  ultimately show ?thesis by simp
qed

lemma card_named_pages:
  assumes "distinct dels" and "set dels \<subseteq> (\<lambda>i. Some (int i + 1)) ` {..<n}"
  shows "card {i. i < n \<and> Some (int i + 1) \<in> set dels} = length dels"
proof -
  let ?g = "\<lambda>i :: nat. Some (int i + 1)"
  have inj: "inj_on ?g {i. i < n \<and> ?g i \<in> set dels}"
    by (auto simp: inj_on_def)
  have "?g ` {i. i < n \<and> ?g i \<in> set dels} = set dels"
    using assms(2) by auto
  then have "card (set dels) = card {i. i < n \<and> ?g i \<in> set dels}"
    using card_image [OF inj] by simp
  with assms(1) show ?thesis by (simp add: distinct_card)
qed

text \<open>
  Claim C2, as amended. The page numbers are \<open>NaN\<close> or integers a double holds exactly.
  On a document the library can copy, \<open>extract\<close> takes the pages named by the in-range
  entries of the request, in ascending order, one page per entry (an entry out of range or
  \<open>NaN\<close> is dropped without an error); \<open>deletePages\<close> takes, in the order of the
  source, the pages whose number is not listed, so their count is the source's minus the
  number of its pages that the list names, which is the length of the list when its entries
  are distinct and in range; and when the source's pages are all different, no page that the
  list names is among them. What each returns is the document of the pages taken, or a
  document of one blank page when no page is taken.
\<close>

theorem extract_deletePages_page_count:
  assumes "bytes f = PdfData d" and "all_readable d"
    and "safe_numbers nums" and "safe_numbers dels"
  shows "\<exists>ex del.
      outcome (extract exponential f nums cb)
        = Inr (PdfData (if ex = [] then [Readable blank_page] else ex)) \<and>
      ex = map (\<lambda>v. d ! nat (v - 1)) (sort (requested (length d) nums)) \<and>
      length ex = length (requested (length d) nums) \<and>
      outcome (deletePages exponential f dels cb)
        = Inr (PdfData (if del = [] then [Readable blank_page] else del)) \<and>
      del = map (\<lambda>i. d ! i) (filter (\<lambda>i. Some (int i + 1) \<notin> set dels) [0..<length d]) \<and>
      length del = length d - card {i. i < length d \<and> Some (int i + 1) \<in> set dels} \<and>
      (distinct dels \<and> set dels \<subseteq> (\<lambda>i. Some (int i + 1)) ` {..<length d} \<longrightarrow>
         length del = length d - length dels) \<and>
      (distinct d \<longrightarrow> (\<forall>i < length d. Some (int i + 1) \<in> set dels \<longrightarrow> d ! i \<notin> set del))"
proof -
  define ex where "ex = map (\<lambda>v. d ! nat (v - 1)) (sort (requested (length d) nums))"
  define del where "del = map (\<lambda>i. d ! i) (filter (\<lambda>i. Some (int i + 1) \<notin> set dels) [0..<length d])"
  have sv: "save x = PdfData (if x = [] then [Readable blank_page] else x)" for x :: "'a document"
    by (simp add: save_def getPageCount_def addPage_def)
  have 1: "outcome (extract exponential f nums cb) = Inr (PdfData (if ex = [] then [Readable blank_page] else ex))"
    using extract_readable [OF assms(1,2,3), of exponential cb] unfolding sv
    by (simp add: outcome_def ex_def)
  have 2: "length ex = length (requested (length d) nums)"
    by (simp add: ex_def)
  have 3: "outcome (deletePages exponential f dels cb) = Inr (PdfData (if del = [] then [Readable blank_page] else del))"
    using deletePages_readable [OF assms(1,2,4), of exponential cb] unfolding sv
    by (simp add: outcome_def del_def)
  have 4: "length del = length d - card {i. i < length d \<and> Some (int i + 1) \<in> set dels}"
    using length_filter_upt_compl [of "\<lambda>i. Some (int i + 1) \<notin> set dels" "length d"]
    by (simp add: del_def)
  have 5: "length del = length d - length dels"
    if "distinct dels \<and> set dels \<subseteq> (\<lambda>i. Some (int i + 1)) ` {..<length d}"
    using that 4 card_named_pages [of dels "length d"] by simp
  have 6: "d ! i \<notin> set del" if "distinct d" "i < length d" "Some (int i + 1) \<in> set dels" for i
  proof
    assume "d ! i \<in> set del"
    then obtain j where j: "j < length d" "Some (int j + 1) \<notin> set dels" "d ! i = d ! j"
      by (auto simp: del_def)
    with that(1,2) have "i = j" by (simp add: nth_eq_iff_index_eq)
    with that(3) j(2) show False by simp
  qed
  from 1 2 3 4 5 6 show ?thesis
    unfolding ex_def [symmetric] del_def [symmetric] by blast
qed

text \<open>
  A document of three different pages: pages 3 and 1 requested along with a page 9 and a
  \<open>NaN\<close>; page 2 deleted along with a page 7; pages 2 and 3 deleted; no page requested.
\<close>

theorem extract_deletePages_page_count_witness:
  "all_readable [page_A, page_B, page_C] \<and>
   safe_numbers [Some 3, Some 1, Some 9, None] \<and> safe_numbers [Some 2, Some 7] \<and>
   outcome (extract exponent_text (pdf_file [page_A, page_B, page_C]) [Some 3, Some 1, Some 9, None] True)
     = Inr (PdfData [page_A, page_C]) \<and>
   outcome (deletePages exponent_text (pdf_file [page_A, page_B, page_C]) [Some 2, Some 7] True)
     = Inr (PdfData [page_A, page_C]) \<and>
   (\<exists>del. outcome (deletePages exponent_text (pdf_file [page_A, page_B, page_C]) [Some 2, Some 3] True)
            = Inr (PdfData del) \<and>
          length del = 3 - 2 \<and> page_B \<notin> set del \<and> page_C \<notin> set del) \<and>
   outcome (extract exponent_text (pdf_file [page_A, page_B, page_C]) [Some 9] True)
     = Inr (PdfData [Readable blank_page])"
proof -
  let ?d = "[page_A, page_B, page_C]"
  have a: "all_readable ?d"
    by (simp add: all_readable_def page_A_def page_B_def page_C_def)
  have b: "bytes (pdf_file ?d) = PdfData ?d"
    by (simp add: pdf_file_def)
  have u: "[0..<length ?d] = [0, 1, 2]"
    by (simp add: upt_rec)
  have sf: "safe_numbers [Some 3, Some 1, Some 9, None]" "safe_numbers [Some 2, Some 7]"
    "safe_numbers [Some 2, Some 3]" "safe_numbers [Some 9]" "safe_numbers []"
    by (simp_all add: safe_numbers_def max_safe_integer_def)
  have r: "page_A \<noteq> Corrupted" by (simp add: page_A_def)
  from extract_deletePages_page_count [OF b a sf(1) sf(2), of exponent_text True]
  obtain ex del where
    "outcome (extract exponent_text (pdf_file ?d) [Some 3, Some 1, Some 9, None] True)
       = Inr (PdfData (if ex = [] then [Readable blank_page] else ex))"
    "ex = map (\<lambda>v. ?d ! nat (v - 1)) (sort (requested (length ?d) [Some 3, Some 1, Some 9, None]))"
    "outcome (deletePages exponent_text (pdf_file ?d) [Some 2, Some 7] True)
       = Inr (PdfData (if del = [] then [Readable blank_page] else del))"
    "del = map (\<lambda>i. ?d ! i) (filter (\<lambda>i. Some (int i + 1) \<notin> set [Some 2, Some 7]) [0..<length ?d])"
    by (elim exE conjE)
  then have 1: "outcome (extract exponent_text (pdf_file ?d) [Some 3, Some 1, Some 9, None] True) = Inr (PdfData [page_A, page_C])"
    "outcome (deletePages exponent_text (pdf_file ?d) [Some 2, Some 7] True) = Inr (PdfData [page_A, page_C])"
    unfolding u by simp_all
  have dd: "distinct [Some 2, Some (3 :: int)]" by simp
  have "Some 2 \<in> (\<lambda>i. Some (int i + 1)) ` {..<length ?d}" "Some 3 \<in> (\<lambda>i. Some (int i + 1)) ` {..<length ?d}"
    by (rule image_eqI [where x = 1], simp, simp) (rule image_eqI [where x = 2], simp, simp)
  then have sub: "set [Some 2, Some 3] \<subseteq> (\<lambda>i. Some (int i + 1)) ` {..<length ?d}"
    by simp
  have dist: "distinct ?d"
    by (simp add: page_A_def page_B_def page_C_def)
  from extract_deletePages_page_count [OF b a sf(4) sf(3), of exponent_text True]
  obtain ex' del' where o: "outcome (deletePages exponent_text (pdf_file ?d) [Some 2, Some 3] True)
         = Inr (PdfData (if del' = [] then [Readable blank_page] else del'))"
    and e: "outcome (extract exponent_text (pdf_file ?d) [Some 9] True)
         = Inr (PdfData (if ex' = [] then [Readable blank_page] else ex'))"
      "ex' = map (\<lambda>v. ?d ! nat (v - 1)) (sort (requested (length ?d) [Some 9]))"
    and l: "distinct [Some 2, Some (3 :: int)] \<and> set [Some 2, Some 3] \<subseteq> (\<lambda>i. Some (int i + 1)) ` {..<length ?d}
             \<longrightarrow> length del' = length ?d - length [Some 2, Some (3 :: int)]"
    and n: "distinct ?d \<longrightarrow> (\<forall>i < length ?d. Some (int i + 1) \<in> set [Some 2, Some 3] \<longrightarrow> ?d ! i \<notin> set del')"
    by (elim exE conjE)
  from l dd sub have ld: "length del' = 3 - 2" by simp
  then have "del' \<noteq> []" by auto
  with o have o': "outcome (deletePages exponent_text (pdf_file ?d) [Some 2, Some 3] True) = Inr (PdfData del')"
    by simp
  from n dist have "\<forall>i < length ?d. Some (int i + 1) \<in> set [Some 2, Some 3] \<longrightarrow> ?d ! i \<notin> set del'"
    by blast
  from this [rule_format, of 1] this [rule_format, of 2]
  have "page_B \<notin> set del'" "page_C \<notin> set del'"
    by simp_all
  with ld o' have 2: "\<exists>del. outcome (deletePages exponent_text (pdf_file ?d) [Some 2, Some 3] True) = Inr (PdfData del) \<and>
          length del = 3 - 2 \<and> page_B \<notin> set del \<and> page_C \<notin> set del"
    by blast
  from e have 3: "outcome (extract exponent_text (pdf_file ?d) [Some 9] True) = Inr (PdfData [Readable blank_page])"
    by simp
  from a sf(1,2) 1 2 3 show ?thesis by blast
qed

text \<open>
  Claim C2 as stated fails: deleting page 5 of a document of three pages leaves three pages,
  not two; a request for page 1 twice extracts two pages; and deleting the only page of a
  document leaves a document of one page, a blank one.
\<close>

theorem deletePages_count_counterexample:
  "outcome (deletePages exponent_text (pdf_file [page_A, page_B, page_C]) [Some 5] True)
     = Inr (PdfData [page_A, page_B, page_C]) \<and>
   length [page_A, page_B, page_C] \<noteq> length [page_A, page_B, page_C] - length [Some (5 :: int)] \<and>
   outcome (extract exponent_text (pdf_file [page_A, page_B, page_C]) [Some 1, Some 1] True)
     = Inr (PdfData [page_A, page_A]) \<and>
   outcome (deletePages exponent_text (pdf_file [page_A]) [Some 1] True)
     = Inr (PdfData [Readable blank_page]) \<and>
   length [Readable (blank_page :: string page)] \<noteq> length [page_A] - length [Some (1 :: int)]"
proof -
  have a: "all_readable [page_A, page_B, page_C]" "all_readable [page_A]"
    by (simp_all add: all_readable_def page_A_def page_B_def page_C_def)
  have b: "bytes (pdf_file [page_A, page_B, page_C]) = PdfData [page_A, page_B, page_C]"
    "bytes (pdf_file [page_A]) = PdfData [page_A]"
    by (simp_all add: pdf_file_def)
  have u: "[0..<length [page_A, page_B, page_C]] = [0, 1, 2]"
    by (simp add: upt_rec)
  have sf: "safe_numbers [Some 5]" "safe_numbers [Some 1, Some 1]" "safe_numbers [Some 1]"
    by (simp_all add: safe_numbers_def max_safe_integer_def)
  show ?thesis
    using deletePages_readable [OF b(1) a(1) sf(1), of exponent_text True]
      extract_readable [OF b(1) a(1) sf(2), of exponent_text True]
      deletePages_readable [OF b(2) a(2) sf(3), of exponent_text True]
    unfolding u by (simp add: outcome_def save_nonempty save_empty)
qed


section \<open>Proofs: page-level failures\<close>

lemma for_each_events:
  assumes "\<And>x s. x \<in> set xs \<Longrightarrow> snd (body x s) = Inr (step x s) \<and> fst (body x s) = ev x"
  shows "fst (for_each xs body s) = concat (map ev xs)"
  using assms
proof (induction xs arbitrary: s)
  case Nil
  then show ?case by simp
next
  case (Cons x xs)
  have "fst (for_each xs body (step x s)) = concat (map ev xs)"
    using Cons.prems by (intro Cons.IH) simp
  with Cons.prems [of x s] show ?case
    by (simp add: fst_for_each_Cons del: for_each.simps)
qed

lemma foldl_keep_if: "foldl (\<lambda>s i. if K i then s @ [g i] else s) s xs = s @ map g (filter K xs)"
  by (induction xs arbitrary: s) simp_all

lemma copyPage_nat:
  "i < length d \<Longrightarrow>
   copyPage d (Some (int i)) = (case d ! i of Readable p \<Rightarrow> Inr p | Corrupted \<Rightarrow> Inl (CopyFailed (Some (int i))))"
  by (simp add: copyPage_def)

lemma copyPage_corrupted:
  "i < length d \<Longrightarrow> d ! i = Corrupted \<Longrightarrow> copyPage d (Some (int i)) = Inl (CopyFailed (Some (int i)))"
  by (simp add: copyPage_nat)

lemma repair_loop:
  fixes d :: "'a document" and cb :: bool
  defines "body \<equiv> (\<lambda>i newPdf.
             and_then
               (report cb (js_plus 50 (js_times (js_div (int i + 1) (int (length d))) 50))) (\<lambda>_.
             (case copyPage d (Some (int i)) of
                Inr copiedPage \<Rightarrow> succeed (addPage newPdf copiedPage)
              | Inl pageError \<Rightarrow> and_then (warn (Warn_page (i + 1))) (\<lambda>_. succeed newPdf))))"
  shows "snd (for_each [0..<length d] body create) = Inr (filter (\<lambda>p. p \<noteq> Corrupted) d)"
    and "fst (for_each [0..<length d] body create) = concat (map (repair_events cb d) [0..<length d])"
proof -
  let ?step = "\<lambda>i (s :: 'a document). if d ! i \<noteq> Corrupted then s @ [d ! i] else s"
  have b: "snd (body i s) = Inr (?step i s) \<and> fst (body i s) = repair_events cb d i"
    if "i \<in> set [0..<length d]" for i s
  proof -
    from that have "i < length d" by simp
    then show ?thesis
      by (cases "d ! i")
        (simp_all add: body_def snd_and_then fst_and_then copyPage_nat addPage_def repair_events_def)
  qed
  have "snd (for_each [0..<length d] body create) = Inr (foldl (\<lambda>s i. ?step i s) create [0..<length d])"
    using b by (intro for_each_succeeds) simp
  moreover have "map ((!) d) (filter (\<lambda>i. d ! i \<noteq> Corrupted) [0..<length d]) = filter (\<lambda>p. p \<noteq> Corrupted) d"
    using filter_map [of "\<lambda>p. p \<noteq> Corrupted" "(!) d" "[0..<length d]"]
    by (simp add: map_nth comp_def)
  ultimately show "snd (for_each [0..<length d] body create) = Inr (filter (\<lambda>p. p \<noteq> Corrupted) d)"
    by (simp add: foldl_keep_if create_def)
  show "fst (for_each [0..<length d] body create) = concat (map (repair_events cb d) [0..<length d])"
    using b by (intro for_each_events) simp
qed

lemma warnings_repair_events:
  "filter (\<lambda>e. case e of Progress p \<Rightarrow> False | _ \<Rightarrow> True) (concat (map (repair_events cb d) xs))
     = map (\<lambda>i. Warn_page (i + 1)) (filter (\<lambda>i. d ! i = Corrupted) xs)"
  by (induction xs) (simp_all add: repair_events_def)

lemma repair_result:
  assumes "bytes f = PdfData d"
  shows "snd (repair f cb) =
           (if filter (\<lambda>p. p \<noteq> Corrupted) d = [] then Inl (RepairFailed NoValidPages)
            else Inr (PdfData (filter (\<lambda>p. p \<noteq> Corrupted) d)))"
    and "warnings (repair f cb) = map (\<lambda>i. Warn_page (i + 1)) (filter (\<lambda>i. d ! i = Corrupted) [0..<length d])"
proof -
  have body: "snd (repair_body f cb) =
           (if filter (\<lambda>p. p \<noteq> Corrupted) d = [] then Inl NoValidPages
            else Inr (PdfData (filter (\<lambda>p. p \<noteq> Corrupted) d)))"
    using assms repair_loop(1) [of d cb]
    by (simp add: repair_body_def snd_and_then load_def getPageCount_def save_def Let_def)
  then show "snd (repair f cb) =
           (if filter (\<lambda>p. p \<noteq> Corrupted) d = [] then Inl (RepairFailed NoValidPages)
            else Inr (PdfData (filter (\<lambda>p. p \<noteq> Corrupted) d)))"
    by (cases "repair_body f cb") (auto simp: repair_def split: sum.splits)
  have "fst (repair_body f cb) =
          (if cb then [Progress (Fin 20), Progress (Fin 50)] else []) @ concat (map (repair_events cb d) [0..<length d])"
    using assms repair_loop [of d cb]
    by (simp add: repair_body_def snd_and_then fst_and_then load_def getPageCount_def save_def Let_def)
  moreover have "fst (repair f cb) = fst (repair_body f cb)"
    by (cases "repair_body f cb") (auto simp: repair_def split: sum.splits)
  ultimately show "warnings (repair f cb) = map (\<lambda>i. Warn_page (i + 1)) (filter (\<lambda>i. d ! i = Corrupted) [0..<length d])"
    by (simp add: warnings_def warnings_repair_events)
qed


lemma snd_and_then_Inl: "snd m = Inl e \<Longrightarrow> snd (and_then m g) = Inl e"
  by (simp add: snd_and_then)

lemma corrupted_index: "Corrupted \<in> set d \<Longrightarrow> \<exists>i < length d. d ! i = Corrupted"
  by (auto simp: in_set_conv_nth)

lemma reverse_fails:
  assumes "bytes f = PdfData d" and "Corrupted \<in> set d"
  shows "\<exists>e. snd (reverse f cb) = Inl e"
proof -
  from corrupted_index [OF assms(2)] obtain i where i: "i < length d" "d ! i = Corrupted" by blast
  have "\<exists>e. snd (for_each (rev [0..<length d])
            (\<lambda>i newPdf.
               and_then (report cb (percent_of (int (length d) - int i) (int (length d)))) (\<lambda>_.
               and_then (lift (copyPage d (Some (int i)))) (\<lambda>copiedPage.
               succeed (addPage newPdf copiedPage))))
            create) = Inl e"
  proof (rule for_each_fails [where x = i])
    show "i \<in> set (rev [0..<length d])" using i by simp
  qed (simp add: snd_and_then copyPage_corrupted [OF i])
  then show ?thesis
    using assms(1)
    by (auto simp: reverse_def snd_and_then load_def getPageCount_def Let_def)
qed

lemma splitPDF_fails:
  assumes "bytes f = PdfData d" and "Corrupted \<in> set d"
  shows "\<exists>e. snd (splitPDF f cb) = Inl e"
proof -
  from corrupted_index [OF assms(2)] obtain i where i: "i < length d" "d ! i = Corrupted" by blast
  have "\<exists>e. snd (for_each [0..<length d]
         (\<lambda>i splitPDFs.
            and_then (report cb (percent_of (int i + 1) (int (length d)))) (\<lambda>_.
            and_then (lift (copyPage d (Some (int i)))) (\<lambda>copiedPage.
            let newPdf = addPage create copiedPage;
                pdfBytes = save newPdf
            in succeed (splitPDFs @
                 [\<lparr>pageNumber = i + 1, blob = pdfBytes,
                   filename = ''page_'' @ show_nat (i + 1) @ ''.pdf''\<rparr>]))))
         ([] :: 'a split_item list)) = Inl e"
  proof (rule for_each_fails [where x = i])
    show "i \<in> set [0..<length d]" using i by simp
  qed (simp add: snd_and_then copyPage_corrupted [OF i])
  then show ?thesis
    using assms(1)
    by (auto simp: splitPDF_def snd_and_then load_def getPageCount_def Let_def)
qed

lemma copyPages_fails:
  "i \<in> set is \<Longrightarrow> copyPage d i = Inl e \<Longrightarrow> \<exists>e'. copyPages d is = Inl e'"
  by (induction "is") (auto split: sum.splits)

lemma mergePDFs_fails:
  assumes "f \<in> set files" and "bytes f = PdfData d" and "Corrupted \<in> set d"
  shows "\<exists>e. snd (mergePDFs files cb) = Inl e"
proof -
  from corrupted_index [OF assms(3)] obtain i where i: "i < length d" "d ! i = Corrupted" by blast
  then have "Some (int i) \<in> set (getPageIndices d)"
    by (simp add: getPageIndices_def)
  from copyPages_fails [OF this copyPage_corrupted [OF i]]
  obtain e where e: "copyPages d (getPageIndices d) = Inl e" by blast
  have "\<exists>e. snd (for_each files
          (\<lambda>file (processedFiles, mergedPdf).
             let processedFiles' = processedFiles + 1 in
             and_then (report cb (percent_of (int processedFiles') (int (length files)))) (\<lambda>_.
             and_then (lift (load (bytes file))) (\<lambda>pdf.
             and_then (lift (copyPages pdf (getPageIndices pdf))) (\<lambda>copiedPages.
             succeed (processedFiles', foldl addPage mergedPdf copiedPages)))))
          (0 :: nat, create :: 'a document)) = Inl e"
  proof (rule for_each_fails [where x = f])
    show "f \<in> set files" by (rule assms(1))
  qed (simp add: snd_and_then split_beta load_def assms(2) e)
  then show ?thesis
    by (auto simp: mergePDFs_def snd_and_then)
qed

lemma deletePages_fails:
  assumes "bytes f = PdfData d" and "i < length d" and "d ! i = Corrupted"
    and "Some (int i + 1) \<notin> set dels" and "safe_numbers dels"
  shows "\<exists>e. snd (deletePages exponential f dels cb) = Inl e"
proof -
  define deleteSet where
    "deleteSet = foldl (\<lambda>s n. set_add n s) [] (map minus_one dels)"
  note mp = map_parseInt_number [OF assms(5), of exponential]
  have kept: "Some (int i) \<notin> set deleteSet"
    using assms(4) by (simp add: deleteSet_def deleteSet_has)
  have "\<exists>e. snd (for_each [0..<length d]
               (\<lambda>i (processedCount, newPdf).
                  if Some (int i) \<notin> set deleteSet then
                    (let processedCount' = (if cb then processedCount + 1 else processedCount) in
                     and_then
                       (report cb (percent_of (int processedCount')
                          (int (length d) - int (length deleteSet)))) (\<lambda>_.
                     and_then (lift (copyPage d (Some (int i)))) (\<lambda>copiedPage.
                     succeed (processedCount', addPage newPdf copiedPage))))
                  else succeed (processedCount, newPdf))
               (0 :: nat, create :: 'a document)) = Inl e"
  proof (rule for_each_fails [where x = i])
    show "i \<in> set [0..<length d]" using assms(2) by simp
  qed (simp add: snd_and_then split_beta kept Let_def copyPage_corrupted [OF assms(2,3)])
  then show ?thesis
    using assms(1)
    by (auto simp: deletePages_def snd_and_then load_def getPageCount_def Let_def mp
        deleteSet_def [symmetric])
qed


lemma validPages_eq:
  "js_sort (filter (valid_index n) (map minus_one nums))
     = map (\<lambda>v. Some (v - 1)) (sort (requested n nums))"
  using js_sort_Some [of "map (\<lambda>v. v - 1) (requested n nums)"]
  by (simp add: filter_valid_requested sort_map_pred comp_def)

lemma copyPage_corrupted_int:
  assumes "0 \<le> w" "w < int (length d)" "d ! nat w = Corrupted"
  shows "copyPage d (Some w) = Inl (CopyFailed (Some w))"
  using assms by (simp add: copyPage_def)

lemma extract_fails:
  assumes "bytes f = PdfData d" and "Some v \<in> set nums" and "1 \<le> v" and "v \<le> int (length d)"
    and "d ! nat (v - 1) = Corrupted" and "safe_numbers nums"
  shows "\<exists>e. snd (extract exponential f nums cb) = Inl e"
proof -
  define vs where "vs = sort (requested (length d) nums)"
  note mp = map_parseInt_number [OF assms(6), of exponential]
  from assms(2-4) have "v \<in> set vs"
    by (simp add: vs_def requested_set)
  then obtain i where i: "i < length vs" "vs ! i = v"
    by (auto simp: in_set_conv_nth)
  have c: "copyPage d (Some (v - 1)) = Inl (CopyFailed (Some (v - 1)))"
    using assms(3-5) by (intro copyPage_corrupted_int) simp_all
  have "\<exists>e. snd (for_each [0..<length (map (\<lambda>v. Some (v - 1)) vs)]
               (\<lambda>i newPdf.
                  and_then (report cb (percent_of (int i + 1) (int (length (map (\<lambda>v. Some (v - 1)) vs))))) (\<lambda>_.
                  let pageIndex = map (\<lambda>v. Some (v - 1)) vs ! i in
                  and_then (lift (copyPage d pageIndex)) (\<lambda>copiedPage.
                  succeed (addPage newPdf copiedPage))))
               (create :: 'a document)) = Inl e"
  proof (rule for_each_fails [where x = i])
    show "i \<in> set [0..<length (map (\<lambda>v. Some (v - 1)) vs)]" using i by simp
  qed (simp add: snd_and_then i c)
  then show ?thesis
    using assms(1) unfolding vs_def
    by (auto simp: extract_def snd_and_then load_def getPageCount_def Let_def mp validPages_eq)
qed

lemma organize_fails:
  assumes "bytes f = PdfData d" and "i < length pageConfig"
    and "originalIndex (pageConfig ! i) = Some w" and "0 \<le> w" and "w < int (length d)"
    and "d ! nat w = Corrupted"
  shows "\<exists>e. snd (organize f pageConfig cb) = Inl e"
proof -
  have "\<exists>e. snd (for_each [0..<length pageConfig]
            (\<lambda>i newPdf.
               and_then (report cb (percent_of (int i + 1) (int (length pageConfig)))) (\<lambda>_.
               let config = pageConfig ! i in
               and_then (lift (copyPage d (originalIndex config))) (\<lambda>page.
               and_then
                 (lift (if config_rotation config \<noteq> 0
                        then setRotation (rotation page + config_rotation config) page
                        else Inr page)) (\<lambda>page'.
               succeed (addPage newPdf page')))))
            (create :: 'a document)) = Inl e"
  proof (rule for_each_fails [where x = i])
    show "i \<in> set [0..<length pageConfig]" using assms(2) by simp
  qed (simp add: snd_and_then Let_def assms(3) copyPage_corrupted_int [OF assms(4-6)])
  then show ?thesis
    using assms(1)
    by (auto simp: organize_def snd_and_then load_def)
qed

lemma rotateAll_fails:
  assumes "bytes f = PdfData d" and "Corrupted \<in> set d"
  shows "\<exists>e. snd (rotateAll f delta cb) = Inl e"
proof -
  from corrupted_index [OF assms(2)] obtain i where i: "i < length d" "d ! i = Corrupted" by blast
  let ?I = "\<lambda>s :: 'a document. i < length s \<and> s ! i = Corrupted"
  have "\<exists>e. snd (for_each [0..<length d]
            (\<lambda>i doc.
               and_then (report cb (percent_of (int i + 1) (int (length d)))) (\<lambda>_.
               lift (rotatePage delta i doc)))
            d) = Inl e"
  proof (rule for_each_fails_inv [where x = i and I = ?I])
    show "?I d" using i by simp
    show "i \<in> set [0..<length d]" using i by simp
  next
    fix s :: "'a document"
    assume "?I s"
    then show "\<exists>e. snd (and_then (report cb (percent_of (int i + 1) (int (length d)))) (\<lambda>_.
               lift (rotatePage delta i s))) = Inl e"
      by (simp add: snd_and_then rotatePage_def)
  next
    fix y and s s' :: "'a document"
    assume "?I s" and "snd (and_then (report cb (percent_of (int y + 1) (int (length d)))) (\<lambda>_.
               lift (rotatePage delta y s))) = Inr s'"
    then show "?I s'"
      by (auto simp: snd_and_then rotatePage_def nth_list_update
          split: if_splits page_object.splits sum.splits)
  qed
  then show ?thesis
    using assms(1)
    by (auto simp: rotateAll_def snd_and_then load_def Let_def)
qed

lemma foldl_append_concat: "foldl (\<lambda>s i. s @ g i) s xs = s @ concat (map g xs)"
  by (induction xs arbitrary: s) simp_all

lemma imagesToPDF_result:
  shows "snd (imagesToPDF files cb) = Inr (save (concat (map image_pages files)))"
    and "warnings (imagesToPDF files cb) = map (\<lambda>f. Warn_image (fname f)) (filter embed_throws files)"
proof -
  let ?body = "\<lambda>i pdfDoc.
             and_then (report cb (percent_of (int i + 1) (int (length files)))) (\<lambda>_.
             let file = files ! i;
                 buffer = bytes file;
                 embedded =
                   (if ftype file = ''image/jpeg'' \<or> ftype file = ''image/jpg''
                    then map_sum id Some (embedJpg buffer)
                    else if ftype file = ''image/png''
                    then map_sum id Some (embedPng buffer)
                    else Inr None)
             in (case embedded of
                   Inl e \<Rightarrow> and_then (warn (Warn_image (fname file))) (\<lambda>_. succeed pdfDoc)
                 | Inr None \<Rightarrow> succeed pdfDoc
                 | Inr (Some img) \<Rightarrow> succeed (addPage pdfDoc (drawImage img blank_page))))"
  have b: "snd (?body i s) = Inr (s @ image_pages (files ! i)) \<and> fst (?body i s) = image_events cb files i"
    for i and s :: "'a document"
    by (cases "bytes (files ! i)")
      (simp_all add: snd_and_then fst_and_then Let_def embedJpg_def embedPng_def image_pages_def
        image_events_def embed_throws_def addPage_def drawImage_def blank_page_def)
  have s: "snd (for_each [0..<length files] ?body create)
      = Inr (foldl (\<lambda>s i. s @ image_pages (files ! i)) create [0..<length files])"
    using b by (intro for_each_succeeds) simp
  have e: "fst (for_each [0..<length files] ?body create) = concat (map (image_events cb files) [0..<length files])"
    using b by (intro for_each_events [where step = "\<lambda>i s. s @ image_pages (files ! i)"]) simp
  have m: "map (\<lambda>i. image_pages (files ! i)) [0..<length files] = map image_pages files"
    by (rule nth_equalityI) simp_all
  show "snd (imagesToPDF files cb) = Inr (save (concat (map image_pages files)))"
    using s by (simp add: imagesToPDF_def snd_and_then foldl_append_concat create_def m)
  have w: "filter (\<lambda>e. case e of Progress p \<Rightarrow> False | _ \<Rightarrow> True) (concat (map (image_events cb files) xs))
      = map (\<lambda>i. Warn_image (fname (files ! i))) (filter (\<lambda>i. embed_throws (files ! i)) xs)" for xs
    by (induction xs) (simp_all add: image_events_def)
  have "map (\<lambda>i. Warn_image (fname (files ! i))) (filter (\<lambda>i. embed_throws (files ! i)) [0..<length files])
      = map (\<lambda>f. Warn_image (fname f)) (filter embed_throws files)"
  proof -
    have "filter embed_throws (map ((!) files) [0..<length files])
        = map ((!) files) (filter (embed_throws \<circ> (!) files) [0..<length files])"
      by (rule filter_map)
    then have "filter embed_throws files = map ((!) files) (filter (\<lambda>i. embed_throws (files ! i)) [0..<length files])"
      by (simp add: map_nth comp_def)
    then show ?thesis by (simp add: comp_def)
  qed
  with s e w show "warnings (imagesToPDF files cb) = map (\<lambda>f. Warn_image (fname f)) (filter embed_throws files)"
    by (simp add: warnings_def imagesToPDF_def fst_and_then snd_and_then)
qed


lemma createPDFFromImages_result:
  shows "snd (createPDFFromImages files) = Inr (save (concat (map image_pages files)))"
    and "warnings (createPDFFromImages files) = map (\<lambda>f. Warn_image (fname f)) (filter embed_throws files)"
proof -
  let ?body = "\<lambda>file pdfDoc.
             let buffer = bytes file;
                 embedded =
                   (if ftype file = ''image/jpeg'' \<or> ftype file = ''image/jpg''
                    then map_sum id Some (embedJpg buffer)
                    else if ftype file = ''image/png''
                    then map_sum id Some (embedPng buffer)
                    else Inr None)
             in (case embedded of
                   Inl e \<Rightarrow> and_then (warn (Warn_image (fname file))) (\<lambda>_. succeed pdfDoc)
                 | Inr None \<Rightarrow> succeed pdfDoc
                 | Inr (Some img) \<Rightarrow> succeed (addPage pdfDoc (drawImage img blank_page)))"
  let ?ev = "\<lambda>g :: 'a file_obj. if embed_throws g then [Warn_image (fname g)] else []"
  have b: "snd (?body g s) = Inr (s @ image_pages g) \<and> fst (?body g s) = ?ev g"
    for g and s :: "'a document"
    by (cases "bytes g")
      (simp_all add: snd_and_then fst_and_then Let_def embedJpg_def embedPng_def image_pages_def
        embed_throws_def addPage_def drawImage_def blank_page_def)
  have s: "snd (for_each files ?body create) = Inr (foldl (\<lambda>s g. s @ image_pages g) create files)"
    using b by (intro for_each_succeeds) simp
  have e: "fst (for_each files ?body create) = concat (map ?ev files)"
    using b by (intro for_each_events [where step = "\<lambda>g s. s @ image_pages g"]) simp
  show "snd (createPDFFromImages files) = Inr (save (concat (map image_pages files)))"
    using s by (simp add: createPDFFromImages_def snd_and_then foldl_append_concat create_def)
  have w: "filter (\<lambda>e. case e of Progress p \<Rightarrow> False | _ \<Rightarrow> True) (concat (map ?ev xs))
      = map (\<lambda>f. Warn_image (fname f)) (filter embed_throws xs)" for xs
    by (induction xs) simp_all
  from s e w show "warnings (createPDFFromImages files) = map (\<lambda>f. Warn_image (fname f)) (filter embed_throws files)"
    by (simp add: warnings_def createPDFFromImages_def fst_and_then snd_and_then)
qed

lemma getPage_corrupted:
  "i < length d \<Longrightarrow> d ! i = Corrupted \<Longrightarrow> getPage d (Suc i) = Inl (PageFailed (Suc i))"
  by (simp add: getPage_def)

lemma getSize_corrupted:
  "i < length s \<Longrightarrow> s ! i = Corrupted \<Longrightarrow> getSize i s = Inl (PageFailed i)"
  by (simp add: getSize_def)

lemma draw_keeps:
  assumes "draw g y s = Inr s'" and "i < length s \<and> s ! i = Corrupted"
  shows "i < length s' \<and> s' ! i = Corrupted"
  using assms
  by (auto simp: draw_def nth_list_update split: if_splits page_object.splits)

lemma drawText_keeps:
  assumes "drawText font t y s = Inr s'" and "i < length s \<and> s ! i = Corrupted"
  shows "i < length s' \<and> s' ! i = Corrupted"
  using assms draw_keeps [of "Text t" y s s' i]
  by (auto simp: drawText_def split: if_splits)

lemma compressPDF_fails:
  assumes "bytes f = PdfData d" and "Corrupted \<in> set d"
  shows "\<exists>e. snd (compressPDF render f cb) = Inl e"
proof -
  from corrupted_index [OF assms(2)] obtain i where i: "i < length d" "d ! i = Corrupted" by blast
  have "\<exists>e. snd (for_each [1..<length d + 1]
            (\<lambda>i newPdf.
               and_then (report cb (percent_of (int i) (int (length d)))) (\<lambda>_.
               and_then (lift (getPage d i)) (\<lambda>page.
               let imgBytes = JpegData (render ''image/jpeg'' page) in
               and_then (lift (embedJpg imgBytes)) (\<lambda>jpgImage.
               succeed (addPage newPdf (drawImage jpgImage blank_page))))))
            (create :: 'a document)) = Inl e"
  proof (rule for_each_fails [where x = "Suc i"])
    show "Suc i \<in> set [1..<length d + 1]" using i by auto
  qed (simp add: snd_and_then getPage_corrupted [OF i])
  then show ?thesis
    using assms(1) i(1)
    by (auto simp: compressPDF_def snd_and_then getDocument_def numPages_def Let_def)
qed

lemma extractTextFromPDF_fails:
  assumes "bytes f = PdfData d" and "Corrupted \<in> set d"
  shows "\<exists>e. snd (extractTextFromPDF f) = Inl e"
proof -
  from corrupted_index [OF assms(2)] obtain i where i: "i < length d" "d ! i = Corrupted" by blast
  have "\<exists>e. snd (for_each [1..<length d + 1]
         (\<lambda>i fullText.
            and_then (lift (getPage d i)) (\<lambda>page.
            let textContent = getTextContent page;
                pageText = join_with '' '' textContent
            in succeed (fullText @ [CHR 0x0A] @ ''--- Page '' @ show_nat i @ '' ---'' @ [CHR 0x0A]
                        @ pageText @ [CHR 0x0A])))
         []) = Inl e"
  proof (rule for_each_fails [where x = "Suc i"])
    show "Suc i \<in> set [1..<length d + 1]" using i by auto
  qed (simp add: snd_and_then getPage_corrupted [OF i])
  then show ?thesis
    using assms(1)
    by (auto simp: extractTextFromPDF_def snd_and_then getDocument_def numPages_def)
qed

lemma convertPDFToImages_fails:
  assumes "bytes f = PdfData d" and "Corrupted \<in> set d"
  shows "\<exists>e. snd (convertPDFToImages render f fmt cb) = Inl e"
proof -
  from corrupted_index [OF assms(2)] obtain i where i: "i < length d" "d ! i = Corrupted" by blast
  have "\<exists>e. snd (for_each [1..<length d + 1]
         (\<lambda>i images.
            and_then (report cb (percent_of (int i) (int (length d)))) (\<lambda>_.
            and_then (lift (getPage d i)) (\<lambda>page.
            succeed (images @ [\<lparr>image_pageNumber = i, image_blob = render fmt page\<rparr>]))))
         []) = Inl e"
  proof (rule for_each_fails [where x = "Suc i"])
    show "Suc i \<in> set [1..<length d + 1]" using i by auto
  qed (simp add: snd_and_then getPage_corrupted [OF i])
  then show ?thesis
    using assms(1)
    by (auto simp: convertPDFToImages_def snd_and_then getDocument_def numPages_def)
qed

lemma snd_with_callback: "snd (with_callback k r) = snd r"
  by (simp add: with_callback_def)

lemma text_converters_fail:
  assumes "bytes f = PdfData d" and "Corrupted \<in> set d"
  shows "\<exists>e. snd (toText f cb) = Inl e" "\<exists>e. snd (toWord f cb) = Inl e"
    "\<exists>e. snd (toExcel f cb) = Inl e" "\<exists>e. snd (toHTML f cb) = Inl e"
  using extractTextFromPDF_fails [OF assms]
  by (auto simp: toText_def toWord_def toExcel_def toHTML_def snd_and_then)

lemma image_converters_fail:
  assumes "bytes f = PdfData d" and "Corrupted \<in> set d"
  shows "\<exists>e. snd (toImages render f fmt cb) = Inl e" "\<exists>e. snd (toPowerPoint render f cb) = Inl e"
  using convertPDFToImages_fails [OF assms, of render "if fmt = ''png'' then ''image/png'' else ''image/jpeg''" cb]
    convertPDFToImages_fails [OF assms, of render "''image/jpeg''" True]
  by (auto simp: toImages_def toPowerPoint_def snd_and_then snd_with_callback Let_def)

lemma removeDuplicates_fails:
  assumes "bytes f = PdfData d" and "Corrupted \<in> set d"
  shows "\<exists>e. snd (removeDuplicates f cb) = Inl e"
proof -
  from corrupted_index [OF assms(2)] obtain i where i: "i < length d" "d ! i = Corrupted" by blast
  have "\<exists>e. snd (for_each [0..<length d]
          (\<lambda>i (hashes, newPdf).
             and_then (report cb (percent_of (int i + 1) (int (length d)))) (\<lambda>_.
             and_then (lift (getPage d (i + 1))) (\<lambda>page.
             let textContent = getTextContent page;
                 hash = take 500 (concat textContent)
             in if hash \<notin> set hashes
                then and_then (lift (copyPage d (Some (int i)))) (\<lambda>copiedPage.
                     succeed (set_add hash hashes, addPage newPdf copiedPage))
                else succeed (hashes, newPdf))))
          ([] :: string list, create :: 'a document)) = Inl e"
  proof (rule for_each_fails [where x = i])
    show "i \<in> set [0..<length d]" using i by simp
  qed (simp add: snd_and_then split_beta getPage_corrupted [OF i])
  then show ?thesis
    using assms(1)
    by (auto simp: removeDuplicates_def snd_and_then load_def getDocument_def getPageCount_def Let_def)
qed

lemma copyPages_all_fails:
  assumes "Corrupted \<in> set d"
  shows "\<exists>e. copyPages d (getPageIndices d) = Inl e"
proof -
  from corrupted_index [OF assms] obtain i where i: "i < length d" "d ! i = Corrupted" by blast
  then have "Some (int i) \<in> set (getPageIndices d)"
    by (simp add: getPageIndices_def)
  from copyPages_fails [OF this copyPage_corrupted [OF i]] show ?thesis .
qed

lemma linearize_fails:
  assumes "bytes f = PdfData d" and "Corrupted \<in> set d"
  shows "\<exists>e. snd (linearize f cb) = Inl e"
  using copyPages_all_fails [OF assms(2)] assms(1)
  by (auto simp: linearize_def snd_and_then load_def)

lemma unlock_fails:
  assumes "bytes f = PdfData d" and "Corrupted \<in> set d"
  shows "\<exists>e. snd (unlock f password cb) = Inl e"
proof -
  from copyPages_all_fails [OF assms(2)] assms(1)
  have "\<exists>e. snd (unlock_body f password cb) = Inl e"
    by (auto simp: unlock_body_def snd_and_then load_def)
  then show ?thesis
    by (cases "unlock_body f password cb") (auto simp: unlock_def snd_and_then split: sum.splits)
qed

lemma addWatermark_fails:
  assumes "bytes f = PdfData d" and "Corrupted \<in> set d"
  shows "\<exists>e. snd (addWatermark font f watermarkText cb) = Inl e"
proof -
  from corrupted_index [OF assms(2)] obtain i where i: "i < length d" "d ! i = Corrupted" by blast
  let ?I = "\<lambda>s :: 'a document. i < length s \<and> s ! i = Corrupted"
  let ?body = "\<lambda>i doc.
             and_then (report cb (js_plus 50 (js_times (js_div (int i + 1) (int (length d))) 40))) (\<lambda>_.
             and_then (lift (getSize i doc)) (\<lambda>_.
             and_then (lift (widthOfTextAtSize font watermarkText 50)) (\<lambda>textWidth.
             lift (drawText font watermarkText i doc))))"
  have "\<exists>e. snd (for_each [0..<length d] ?body d) = Inl e"
  proof (rule for_each_fails_inv [where x = i and I = ?I])
    show "?I d" using i by simp
    show "i \<in> set [0..<length d]" using i by simp
  next
    fix s :: "'a document"
    assume "?I s"
    then show "\<exists>e. snd (?body i s) = Inl e"
      by (simp add: snd_and_then getSize_corrupted)
  next
    fix y and s s' :: "'a document"
    assume "?I s" and "snd (?body y s) = Inr s'"
    then show "?I s'"
      by (auto simp: snd_and_then split: sum.splits dest: drawText_keeps)
  qed
  then show ?thesis
    using assms(1)
    by (auto simp: addWatermark_def snd_and_then load_def Let_def)
qed

lemma addImageWatermark_fails:
  assumes "bytes f = PdfData d" and "Corrupted \<in> set d"
  shows "\<exists>e. snd (addImageWatermark f imageFile cb) = Inl e"
proof -
  from corrupted_index [OF assms(2)] obtain i where i: "i < length d" "d ! i = Corrupted" by blast
  let ?I = "\<lambda>s :: 'a document. i < length s \<and> s ! i = Corrupted"
  have loop: "\<exists>e. snd (for_each [0..<length d]
          (\<lambda>i doc.
             and_then (lift (getSize i doc)) (\<lambda>_.
             lift (draw (Picture img) i doc)))
          d) = Inl e" for img
  proof (rule for_each_fails_inv [where x = i and I = ?I])
    show "?I d" using i by simp
    show "i \<in> set [0..<length d]" using i by simp
  next
    fix s :: "'a document"
    assume "?I s"
    then show "\<exists>e. snd (and_then (lift (getSize i s)) (\<lambda>_. lift (draw (Picture img) i s))) = Inl e"
      by (simp add: snd_and_then getSize_corrupted)
  next
    fix y and s s' :: "'a document"
    assume "?I s" and "snd (and_then (lift (getSize y s)) (\<lambda>_. lift (draw (Picture img) y s))) = Inr s'"
    then show "?I s'"
      by (auto simp: snd_and_then split: sum.splits dest: draw_keeps)
  qed
  define embedded where "embedded =
           (if ftype imageFile = ''image/jpeg'' \<or> ftype imageFile = ''image/jpg''
            then embedJpg (bytes imageFile)
            else if ftype imageFile = ''image/png''
            then embedPng (bytes imageFile)
            else Inl UnsupportedImage)"
  show ?thesis
  proof (cases embedded)
    case (Inl e)
    then show ?thesis
      using assms(1)
      by (simp add: addImageWatermark_def snd_and_then load_def Let_def embedded_def [symmetric])
  next
    case (Inr img)
    with loop [of img] show ?thesis
      using assms(1)
      by (auto simp: addImageWatermark_def snd_and_then load_def Let_def embedded_def [symmetric])
  qed
qed

lemma addHeaderFooter_fails:
  assumes "bytes f = PdfData d" and "Corrupted \<in> set d"
  shows "\<exists>e. snd (addHeaderFooter font f config_text cb) = Inl e"
proof -
  from corrupted_index [OF assms(2)] obtain i where i: "i < length d" "d ! i = Corrupted" by blast
  let ?I = "\<lambda>s :: 'a document. i < length s \<and> s ! i = Corrupted"
  let ?body = "\<lambda>i doc.
             and_then (lift (getSize i doc)) (\<lambda>_.
             let text = replace_first ''{total}'' (show_nat (length d))
                          (replace_first ''{page}'' (show_nat (i + 1)) config_text)
             in and_then (lift (widthOfTextAtSize font text 10)) (\<lambda>textWidth.
                lift (drawText font text i doc)))"
  have "\<exists>e. snd (for_each [0..<length d] ?body d) = Inl e"
  proof (rule for_each_fails_inv [where x = i and I = ?I])
    show "?I d" using i by simp
    show "i \<in> set [0..<length d]" using i by simp
  next
    fix s :: "'a document"
    assume "?I s"
    then show "\<exists>e. snd (?body i s) = Inl e"
      by (simp add: snd_and_then getSize_corrupted)
  next
    fix y and s s' :: "'a document"
    assume "?I s" and "snd (?body y s) = Inr s'"
    then show "?I s'"
      by (auto simp: snd_and_then Let_def split: sum.splits dest: drawText_keeps)
  qed
  then show ?thesis
    using assms(1)
    by (auto simp: addHeaderFooter_def snd_and_then load_def Let_def)
qed

lemma addPageNumbers_fails:
  assumes "bytes f = PdfData d" and "i < length d" and "d ! i = Corrupted"
    and "(if config_startPage config = 0 then 1 else config_startPage config) \<le> int i + 1"
  shows "\<exists>e. snd (addPageNumbers font f config cb) = Inl e"
proof -
  define fmt where "fmt = (if config_format config = [] then ''{page}'' else config_format config)"
  define start where "start = (if config_startPage config = 0 then 1 else config_startPage config)"
  from assms(4) have st: "\<not> int i < start - 1" by (simp add: start_def)
  let ?I = "\<lambda>s :: 'a document. i < length s \<and> s ! i = Corrupted"
  let ?body = "\<lambda>i doc.
             if int i < start - 1 then succeed doc
             else
               and_then (report cb (js_plus 50 (js_times (js_div (int i + 1) (int (length d))) 45))) (\<lambda>_.
               and_then (lift (getSize i doc)) (\<lambda>_.
               let pageText = replace_first ''{total}'' (show_nat (length d))
                                (replace_first ''{page}'' (show_nat (i + 1)) fmt)
               in and_then (lift (widthOfTextAtSize font pageText 12)) (\<lambda>textWidth.
                  lift (drawText font pageText i doc))))"
  have "\<exists>e. snd (for_each [0..<length d] ?body d) = Inl e"
  proof (rule for_each_fails_inv [where x = i and I = ?I])
    show "?I d" using assms(2,3) by simp
    show "i \<in> set [0..<length d]" using assms(2) by simp
  next
    fix s :: "'a document"
    assume "?I s"
    then show "\<exists>e. snd (?body i s) = Inl e"
      using st by (simp add: snd_and_then getSize_corrupted)
  next
    fix y and s s' :: "'a document"
    assume "?I s" and "snd (?body y s) = Inr s'"
    then show "?I s'"
      by (auto simp: snd_and_then Let_def split: sum.splits if_splits dest: drawText_keeps)
  qed
  then obtain e where "snd (for_each [0..<length d] ?body d) = Inl e" ..
  then show ?thesis
    using assms(1)
    unfolding addPageNumbers_def Let_def fmt_def [symmetric] start_def [symmetric]
    by (simp add: snd_and_then load_def)
qed

lemma targetPages_has:
  assumes "i < length d" and "pages_config = ''all'' \<or> parseInt pages_config = Some (int i + 1)"
  shows "Some (int i) \<in> set (targetPages pages_config d)"
  using assms by (auto simp: targetPages_def minus_one_def)

lemma target_loop_fails:
  fixes d :: "'a document"
  assumes "i < length d" and "d ! i = Corrupted" and "Some (int i) \<in> set xs"
    and "\<And>v doc doc'. snd (act v doc) = Inr doc' \<Longrightarrow> i < length doc \<and> doc ! i = Corrupted
            \<Longrightarrow> i < length doc' \<and> doc' ! i = Corrupted"
  shows "\<exists>e. snd (for_each xs
          (\<lambda>pageIndex doc.
             (case pageIndex of
                Some v \<Rightarrow>
                  if 0 \<le> v \<and> v < int (length d)
                  then and_then (lift (getSize (nat v) doc)) (\<lambda>_. act v doc)
                  else succeed doc
              | None \<Rightarrow> succeed doc))
          d) = Inl e"
proof -
  let ?I = "\<lambda>s :: 'a document. i < length s \<and> s ! i = Corrupted"
  let ?body = "\<lambda>pageIndex doc.
             (case pageIndex of
                Some v \<Rightarrow>
                  if 0 \<le> v \<and> v < int (length d)
                  then and_then (lift (getSize (nat v) doc)) (\<lambda>_. act v doc)
                  else succeed doc
              | None \<Rightarrow> succeed doc)"
  show ?thesis
  proof (rule for_each_fails_inv [where x = "Some (int i)" and I = ?I])
    show "?I d" using assms(1,2) by simp
    show "Some (int i) \<in> set xs" by (rule assms(3))
  next
    fix s :: "'a document"
    assume "?I s"
    then show "\<exists>e. snd (?body (Some (int i)) s) = Inl e"
      using assms(1) by (simp add: snd_and_then getSize_corrupted)
  next
    fix y and s s' :: "'a document"
    assume "?I s" and "snd (?body y s) = Inr s'"
    then show "?I s'"
      using assms(4)
      by (auto simp: snd_and_then split: option.splits if_splits sum.splits)
  qed
qed

lemma addText_fails:
  assumes "bytes f = PdfData d" and "i < length d" and "d ! i = Corrupted"
    and "config_pages = ''all'' \<or> parseInt config_pages = Some (int i + 1)"
  shows "\<exists>e. snd (addText font f config_text config_pages cb) = Inl e"
proof -
  let ?act = "\<lambda>(v :: int) (doc :: 'a document). lift (drawText font config_text (nat v) doc)"
  have "\<exists>e. snd (for_each (targetPages config_pages d)
          (\<lambda>pageIndex doc.
             (case pageIndex of
                Some v \<Rightarrow>
                  if 0 \<le> v \<and> v < int (length d)
                  then and_then (lift (getSize (nat v) doc)) (\<lambda>_. ?act v doc)
                  else succeed doc
              | None \<Rightarrow> succeed doc))
          d) = Inl e"
  proof (rule target_loop_fails [where act = ?act, OF assms(2,3) targetPages_has [OF assms(2,4)]])
    fix v and doc doc' :: "'a document"
    assume "snd (?act v doc) = Inr doc'" "i < length doc \<and> doc ! i = Corrupted"
    then show "i < length doc' \<and> doc' ! i = Corrupted" by (auto dest: drawText_keeps)
  qed
  then show ?thesis
    using assms(1)
    by (auto simp: addText_def snd_and_then load_def)
qed

lemma addHighlight_fails:
  assumes "bytes f = PdfData d" and "i < length d" and "d ! i = Corrupted"
    and "config_pages = ''all'' \<or> parseInt config_pages = Some (int i + 1)"
  shows "\<exists>e. snd (addHighlight f config_pages cb) = Inl e"
proof -
  let ?act = "\<lambda>(v :: int) (doc :: 'a document). lift (draw (Rectangle) (nat v) doc)"
  have "\<exists>e. snd (for_each (targetPages config_pages d)
          (\<lambda>pageIndex doc.
             (case pageIndex of
                Some v \<Rightarrow>
                  if 0 \<le> v \<and> v < int (length d)
                  then and_then (lift (getSize (nat v) doc)) (\<lambda>_. ?act v doc)
                  else succeed doc
              | None \<Rightarrow> succeed doc))
          d) = Inl e"
  proof (rule target_loop_fails [where act = ?act, OF assms(2,3) targetPages_has [OF assms(2,4)]])
    fix v and doc doc' :: "'a document"
    assume "snd (?act v doc) = Inr doc'" "i < length doc \<and> doc ! i = Corrupted"
    then show "i < length doc' \<and> doc' ! i = Corrupted" by (auto dest: draw_keeps)
  qed
  then show ?thesis
    using assms(1)
    by (auto simp: addHighlight_def snd_and_then load_def)
qed

lemma redact_fails:
  assumes "bytes f = PdfData d" and "i < length d" and "d ! i = Corrupted"
    and "config_pages = ''all'' \<or> parseInt config_pages = Some (int i + 1)"
  shows "\<exists>e. snd (redact f config_pages cb) = Inl e"
proof -
  let ?act = "\<lambda>(v :: int) (doc :: 'a document). lift (draw (Rectangle) (nat v) doc)"
  have "\<exists>e. snd (for_each (targetPages config_pages d)
          (\<lambda>pageIndex doc.
             (case pageIndex of
                Some v \<Rightarrow>
                  if 0 \<le> v \<and> v < int (length d)
                  then and_then (lift (getSize (nat v) doc)) (\<lambda>_. ?act v doc)
                  else succeed doc
              | None \<Rightarrow> succeed doc))
          d) = Inl e"
  proof (rule target_loop_fails [where act = ?act, OF assms(2,3) targetPages_has [OF assms(2,4)]])
    fix v and doc doc' :: "'a document"
    assume "snd (?act v doc) = Inr doc'" "i < length doc \<and> doc ! i = Corrupted"
    then show "i < length doc' \<and> doc' ! i = Corrupted" by (auto dest: draw_keeps)
  qed
  then show ?thesis
    using assms(1)
    by (auto simp: redact_def snd_and_then load_def)
qed

lemma drawShape_fails:
  assumes "bytes f = PdfData d" and "i < length d" and "d ! i = Corrupted"
    and "config_pages = ''all'' \<or> parseInt config_pages = Some (int i + 1)"
  shows "\<exists>e. snd (drawShape f config_type config_pages cb) = Inl e"
proof -
  let ?act = "\<lambda>(v :: int) (doc :: 'a document).
                       if config_type = ''rectangle'' then lift (draw Rectangle (nat v) doc)
                       else if config_type = ''circle'' then lift (draw Circle (nat v) doc)
                       else if config_type = ''line'' then lift (draw Line (nat v) doc)
                       else succeed doc"
  have "\<exists>e. snd (for_each (targetPages config_pages d)
          (\<lambda>pageIndex doc.
             (case pageIndex of
                Some v \<Rightarrow>
                  if 0 \<le> v \<and> v < int (length d)
                  then and_then (lift (getSize (nat v) doc)) (\<lambda>_. ?act v doc)
                  else succeed doc
              | None \<Rightarrow> succeed doc))
          d) = Inl e"
  proof (rule target_loop_fails [where act = ?act, OF assms(2,3) targetPages_has [OF assms(2,4)]])
    fix v and doc doc' :: "'a document"
    assume "snd (?act v doc) = Inr doc'" "i < length doc \<and> doc ! i = Corrupted"
    then show "i < length doc' \<and> doc' ! i = Corrupted"
      by (auto split: if_splits dest: draw_keeps)
  qed
  then show ?thesis
    using assms(1)
    by (auto simp: drawShape_def snd_and_then load_def)
qed

lemma addImage_fails:
  assumes "bytes f = PdfData d" and "i < length d" and "d ! i = Corrupted"
    and "config_pages = ''all'' \<or> parseInt config_pages = Some (int i + 1)"
  shows "\<exists>e. snd (addImage f imageFile config_pages cb) = Inl e"
proof -
  define embedded where "embedded =
           (if ftype imageFile = ''image/jpeg'' \<or> ftype imageFile = ''image/jpg''
            then embedJpg (bytes imageFile)
            else if ftype imageFile = ''image/png''
            then embedPng (bytes imageFile)
            else Inl UnsupportedImage)"
  show ?thesis
  proof (cases embedded)
    case (Inl e)
    then show ?thesis
      using assms(1)
      by (simp add: addImage_def snd_and_then load_def Let_def embedded_def [symmetric])
  next
    case (Inr img)
    let ?act = "\<lambda>(v :: int) (doc :: 'a document). lift (draw (Picture img) (nat v) doc)"
    have "\<exists>e. snd (for_each (targetPages config_pages d)
          (\<lambda>pageIndex doc.
             (case pageIndex of
                Some v \<Rightarrow>
                  if 0 \<le> v \<and> v < int (length d)
                  then and_then (lift (getSize (nat v) doc)) (\<lambda>_. ?act v doc)
                  else succeed doc
              | None \<Rightarrow> succeed doc))
          d) = Inl e"
    proof (rule target_loop_fails [where act = ?act, OF assms(2,3) targetPages_has [OF assms(2,4)]])
      fix v and doc doc' :: "'a document"
      assume "snd (?act v doc) = Inr doc'" "i < length doc \<and> doc ! i = Corrupted"
      then show "i < length doc' \<and> doc' ! i = Corrupted" by (auto dest: draw_keeps)
    qed
    with Inr show ?thesis
      using assms(1)
      by (auto simp: addImage_def snd_and_then load_def Let_def embedded_def [symmetric])
  qed
qed


lemma currentPage_drawText_fails:
  "\<not> encodes font t \<Longrightarrow> \<exists>e. currentPage_drawText font t d = Inl e"
  by (simp add: currentPage_drawText_def drawText_def)

lemma and_then_fails: "\<exists>e. snd m = Inl e \<Longrightarrow> \<exists>e. snd (and_then m g) = Inl e"
  by (auto simp: snd_and_then)

lemma snd_after_report: "snd (and_then (report cb p) g) = snd (g ())"
  by (simp add: snd_and_then)

lemma textToPDF_fails:
  assumes "line \<in> set (split_on (CHR 0x0A) file_text)" and "\<not> encodes font (take 80 line)"
  shows "\<exists>e. snd (textToPDF font file_text cb :: 'a data run) = Inl e"
  unfolding textToPDF_def Let_def snd_after_report
  apply (rule and_then_fails)
  apply (rule for_each_fails [where x = line])
   apply (rule assms(1))
  subgoal for s
    using currentPage_drawText_fails [OF assms(2), of "fst s"]
    by (cases s) (auto simp: snd_and_then)
  done

lemma htmlToPDF_fails:
  assumes "line \<in> set (split_on (CHR 0x0A) (stripped_html html))"
    and "trim line \<noteq> []" and "\<not> encodes font (take 70 (trim line))"
  shows "\<exists>e. snd (htmlToPDF font html cb :: 'a data run) = Inl e"
  unfolding htmlToPDF_def Let_def snd_after_report
  apply (rule and_then_fails)
  apply (rule for_each_fails [where x = line])
   apply (rule assms(1))
  subgoal for s
    using currentPage_drawText_fails [OF assms(3), of "fst s"] assms(2)
    by (cases s) (auto simp: snd_and_then)
  done

lemma excelToPDF_fails:
  assumes "s < length workbook"
    and "\<not> encodes font (''Sheet: '' @ fst (workbook ! s)) \<or>
         (\<exists>row \<in> set (snd (workbook ! s)). \<not> encodes font (take 100 (join_with ''  |  '' row)))"
  shows "\<exists>e. snd (excelToPDF font (Inr workbook) cb :: 'a data run) = Inl e"
  unfolding excelToPDF_def Let_def snd_after_report
  apply (subst snd_and_then)
  apply (simp only: snd_basic sum.case snd_after_report)
  apply (rule and_then_fails)
  apply (rule for_each_fails [where x = s])
  subgoal using assms(1) by simp
  subgoal for pdfDoc
  proof (cases "encodes font (''Sheet: '' @ fst (workbook ! s))")
    case False
    from currentPage_drawText_fails [OF this, of "addPage pdfDoc blank_page"]
    show ?thesis by (intro and_then_fails) simp
  next
    case True
    with assms(2) obtain row where row: "row \<in> set (snd (workbook ! s))"
      "\<not> encodes font (take 100 (join_with ''  |  '' row))" by blast
    show ?thesis
    proof (cases "currentPage_drawText font (''Sheet: '' @ fst (workbook ! s)) (addPage pdfDoc blank_page)")
      case (Inl e)
      then show ?thesis by (simp add: snd_and_then)
    next
      case (Inr titled)
      show ?thesis
        apply (subst snd_and_then)
        apply (simp only: Inr snd_basic sum.case)
        apply (rule and_then_fails)
        apply (rule for_each_fails [where x = row])
         apply (rule row(1))
        subgoal for st
          using currentPage_drawText_fails [OF row(2), of "fst st"]
          by (cases st) (auto simp: snd_and_then)
        done
    qed
  qed
  done

lemma excelToPDF_read_fails:
  "\<exists>e'. snd (excelToPDF font (Inl e) cb :: 'a data run) = Inl e'"
  by (simp add: excelToPDF_def snd_and_then)

lemma split_on_nonempty: "split_on c s \<noteq> []"
  by (induction s) (auto split: list.splits)

lemma wordToPDF_rethrows:
  assumes "\<exists>e. snd (wordToPDF_body font extracted cb :: 'a data run) = Inl e"
  shows "\<exists>e. snd (wordToPDF font extracted cb :: 'a data run) = Inl e"
  using assms
  by (cases "wordToPDF_body font extracted cb :: 'a data run")
    (auto simp: wordToPDF_def snd_and_then split: sum.splits)

lemma wordToPDF_extraction_fails:
  "\<exists>e'. snd (wordToPDF font (Inl e) cb :: 'a data run) = Inl e'"
  by (rule wordToPDF_rethrows) (simp add: wordToPDF_body_def snd_and_then)

lemma wordToPDF_fails:
  assumes "line \<in> set (split_on (CHR 0x0A) file_text)"
    and "\<not> encodes font (hd (split_on (CHR '' '') line) @ '' '')"
  shows "\<exists>e. snd (wordToPDF font (Inr file_text) cb :: 'a data run) = Inl e"
proof (rule wordToPDF_rethrows)
  obtain w ws where ws: "split_on (CHR '' '') line = w # ws"
    using split_on_nonempty [of "CHR '' ''" line] by (cases "split_on (CHR '' '') line") auto
  with assms(2) have w: "\<not> encodes font (w @ '' '')" by simp
  show "\<exists>e. snd (wordToPDF_body font (Inr file_text) cb :: 'a data run) = Inl e"
    unfolding wordToPDF_body_def Let_def
    apply (subst snd_and_then)
    apply (simp only: snd_basic sum.case snd_after_report)
    apply (rule and_then_fails)
    apply (rule for_each_fails [where x = line])
     apply (rule assms(1))
    subgoal for s
      apply (cases s)
      apply (simp only: prod.case ws)
      apply (rule and_then_fails)
      using w
      apply (simp add: snd_for_each_Cons snd_and_then widthOfTextAtSize_def del: for_each.simps)
      done
    done
qed

text \<open>
  Claim C3, as amended. The multi-page operations are the operations of the tool modules,
  and the helpers of \<open>PDFUtils\<close> they call, that process the pages of a PDF document or a
  list of files. Among them exactly \<open>repair\<close> and the two conversions of images to PDF,
  \<open>imagesToPDF\<close> and \<open>createPDFFromImages\<close>, tolerate a failure on one item.
  \<open>repair\<close> logs a warning with the number of a page that fails to copy, leaves the page
  out and goes on, so that its result holds the readable pages in order, and it fails only
  when there is none. The image conversions log a warning with the name of a file that fails
  to embed, go on with the other files, and never fail for that reason. In every other
  multi-page operation a corrupted page that the operation processes ends the run with an
  exception and no output: \<open>merge\<close>, \<open>split\<close>, \<open>rotateAll\<close>, \<open>reverse\<close>,
  \<open>compress\<close>, \<open>removeDuplicates\<close>, \<open>linearize\<close>, \<open>unlock\<close>,
  \<open>addWatermark\<close>, \<open>addImageWatermark\<close>, \<open>addHeaderFooter\<close>, \<open>toImages\<close>,
  \<open>toText\<close>, \<open>toWord\<close>, \<open>toExcel\<close>, \<open>toPowerPoint\<close> and \<open>toHTML\<close>
  process every page; \<open>extract\<close> processes the pages requested, \<open>deletePages\<close> the
  pages not listed, \<open>organize\<close> the pages its configuration names, \<open>addPageNumbers\<close>
  the pages from the start page on, and \<open>addText\<close>, \<open>addImage\<close>, \<open>drawShape\<close>,
  \<open>addHighlight\<close> and \<open>redact\<close> all the pages or the one page selected. The
  conversions of text to PDF, \<open>textToPDF\<close>, \<open>wordToPDF\<close>, \<open>htmlToPDF\<close> and
  \<open>excelToPDF\<close>, draw lines of text on new pages, and a line that the font cannot encode
  ends the run in the same way, as does a Word or Excel file that cannot be read. The
  remaining operations, \<open>addPassword\<close>, \<open>removeMetadata\<close>, \<open>optimize\<close>,
  \<open>addSignaturePlaceholder\<close> and \<open>powerPointToPDF\<close>, have no loop over pages or files.
\<close>

theorem page_failure_policy:
  fixes d :: "'a document"
  assumes "bytes f = PdfData d"
  shows
    "outcome (repair f cb) =
       (if filter (\<lambda>p. p \<noteq> Corrupted) d = [] then Inl (RepairFailed NoValidPages)
        else Inr (PdfData (filter (\<lambda>p. p \<noteq> Corrupted) d))) \<and>
     warnings (repair f cb) = map (\<lambda>i. Warn_page (i + 1)) (filter (\<lambda>i. d ! i = Corrupted) [0..<length d]) \<and>
     outcome (imagesToPDF files cb) = Inr (save (concat (map image_pages files))) \<and>
     warnings (imagesToPDF files cb) = map (\<lambda>g. Warn_image (fname g)) (filter embed_throws files) \<and>
     outcome (createPDFFromImages files) = Inr (save (concat (map image_pages files))) \<and>
     warnings (createPDFFromImages files) = map (\<lambda>g. Warn_image (fname g)) (filter embed_throws files) \<and>
     (Corrupted \<in> set d \<longrightarrow>
        (\<exists>e. outcome (split f cb) = Inl e) \<and>
        (\<exists>e. outcome (splitPDF f cb) = Inl e) \<and>
        (\<exists>e. outcome (rotateAll f delta cb) = Inl e) \<and>
        (\<exists>e. outcome (reverse f cb) = Inl e) \<and>
        (\<forall>fs. f \<in> set fs \<longrightarrow>
           (\<exists>e. outcome (merge fs cb) = Inl e) \<and> (\<exists>e. outcome (mergePDFs fs cb) = Inl e)) \<and>
        (\<exists>e. outcome (compress render f quality cb) = Inl e) \<and>
        (\<exists>e. outcome (compressPDF render f cb) = Inl e) \<and>
        (\<exists>e. outcome (removeDuplicates f cb) = Inl e) \<and>
        (\<exists>e. outcome (linearize f cb) = Inl e) \<and>
        (\<exists>e. outcome (unlock f password cb) = Inl e) \<and>
        (\<exists>e. outcome (addWatermark font f watermarkText cb) = Inl e) \<and>
        (\<exists>e. outcome (addImageWatermark f imageFile cb) = Inl e) \<and>
        (\<exists>e. outcome (addHeaderFooter font f config_text cb) = Inl e) \<and>
        (\<exists>e. outcome (convertPDFToImages render f mimeType cb) = Inl e) \<and>
        (\<exists>e. outcome (toImages render f fmt cb) = Inl e) \<and>
        (\<exists>e. outcome (toPowerPoint render f cb) = Inl e) \<and>
        (\<exists>e. outcome (extractTextFromPDF f) = Inl e) \<and>
        (\<exists>e. outcome (toText f cb) = Inl e) \<and>
        (\<exists>e. outcome (toWord f cb) = Inl e) \<and>
        (\<exists>e. outcome (toExcel f cb) = Inl e) \<and>
        (\<exists>e. outcome (toHTML f cb) = Inl e)) \<and>
     (\<forall>i < length d. d ! i = Corrupted \<longrightarrow>
        (Some (int i + 1) \<in> set nums \<and> safe_numbers nums \<longrightarrow>
           (\<exists>e. outcome (extract exponential f nums cb) = Inl e)) \<and>
        (Some (int i + 1) \<notin> set dels \<and> safe_numbers dels \<longrightarrow>
           (\<exists>e. outcome (deletePages exponential f dels cb) = Inl e)) \<and>
        ((\<exists>c \<in> set pageConfig. originalIndex c = Some (int i)) \<longrightarrow>
           (\<exists>e. outcome (organize f pageConfig cb) = Inl e)) \<and>
        ((if config_startPage config = 0 then 1 else config_startPage config) \<le> int i + 1 \<longrightarrow>
           (\<exists>e. outcome (addPageNumbers font f config cb) = Inl e)) \<and>
        (config_pages = ''all'' \<or> parseInt config_pages = Some (int i + 1) \<longrightarrow>
           (\<exists>e. outcome (addText font f config_text config_pages cb) = Inl e) \<and>
           (\<exists>e. outcome (addImage f imageFile config_pages cb) = Inl e) \<and>
           (\<exists>e. outcome (drawShape f config_type config_pages cb) = Inl e) \<and>
           (\<exists>e. outcome (addHighlight f config_pages cb) = Inl e) \<and>
           (\<exists>e. outcome (redact f config_pages cb) = Inl e))) \<and>
     (\<forall>line \<in> set (split_on (CHR 0x0A) file_text).
        (\<not> encodes font (take 80 line) \<longrightarrow>
           (\<exists>e. outcome (textToPDF font file_text cb :: 'a data run) = Inl e)) \<and>
        (\<not> encodes font (hd (split_on (CHR '' '') line) @ '' '') \<longrightarrow>
           (\<exists>e. outcome (wordToPDF font (Inr file_text) cb :: 'a data run) = Inl e))) \<and>
     (\<forall>e. \<exists>e'. outcome (wordToPDF font (Inl e) cb :: 'a data run) = Inl e') \<and>
     (\<forall>line \<in> set (split_on (CHR 0x0A) (stripped_html html)).
        trim line \<noteq> [] \<and> \<not> encodes font (take 70 (trim line)) \<longrightarrow>
           (\<exists>e. outcome (htmlToPDF font html cb :: 'a data run) = Inl e)) \<and>
     (\<forall>s < length workbook.
        \<not> encodes font (''Sheet: '' @ fst (workbook ! s)) \<or>
        (\<exists>row \<in> set (snd (workbook ! s)). \<not> encodes font (take 100 (join_with ''  |  '' row))) \<longrightarrow>
           (\<exists>e. outcome (excelToPDF font (Inr workbook) cb :: 'a data run) = Inl e)) \<and>
     (\<forall>e. \<exists>e'. outcome (excelToPDF font (Inl e) cb :: 'a data run) = Inl e')"
proof -
  have 1: "outcome (repair f cb) =
       (if filter (\<lambda>p. p \<noteq> Corrupted) d = [] then Inl (RepairFailed NoValidPages)
        else Inr (PdfData (filter (\<lambda>p. p \<noteq> Corrupted) d)))"
    using repair_result(1) [OF assms, of cb] by (simp add: outcome_def)
  note 2 = repair_result(2) [OF assms, of cb]
  have 3: "outcome (imagesToPDF files cb) = Inr (save (concat (map image_pages files)))"
    using imagesToPDF_result(1) [of files cb] by (simp add: outcome_def)
  note 4 = imagesToPDF_result(2) [of files cb]
  have 5: "outcome (createPDFFromImages files) = Inr (save (concat (map image_pages files)))"
    using createPDFFromImages_result(1) [of files] by (simp add: outcome_def)
  note 6 = createPDFFromImages_result(2) [of files]
  have 7: "(\<exists>e. outcome (split f cb) = Inl e) \<and>
        (\<exists>e. outcome (splitPDF f cb) = Inl e) \<and>
        (\<exists>e. outcome (rotateAll f delta cb) = Inl e) \<and>
        (\<exists>e. outcome (reverse f cb) = Inl e) \<and>
        (\<forall>fs. f \<in> set fs \<longrightarrow>
           (\<exists>e. outcome (merge fs cb) = Inl e) \<and> (\<exists>e. outcome (mergePDFs fs cb) = Inl e)) \<and>
        (\<exists>e. outcome (compress render f quality cb) = Inl e) \<and>
        (\<exists>e. outcome (compressPDF render f cb) = Inl e) \<and>
        (\<exists>e. outcome (removeDuplicates f cb) = Inl e) \<and>
        (\<exists>e. outcome (linearize f cb) = Inl e) \<and>
        (\<exists>e. outcome (unlock f password cb) = Inl e) \<and>
        (\<exists>e. outcome (addWatermark font f watermarkText cb) = Inl e) \<and>
        (\<exists>e. outcome (addImageWatermark f imageFile cb) = Inl e) \<and>
        (\<exists>e. outcome (addHeaderFooter font f config_text cb) = Inl e) \<and>
        (\<exists>e. outcome (convertPDFToImages render f mimeType cb) = Inl e) \<and>
        (\<exists>e. outcome (toImages render f fmt cb) = Inl e) \<and>
        (\<exists>e. outcome (toPowerPoint render f cb) = Inl e) \<and>
        (\<exists>e. outcome (extractTextFromPDF f) = Inl e) \<and>
        (\<exists>e. outcome (toText f cb) = Inl e) \<and>
        (\<exists>e. outcome (toWord f cb) = Inl e) \<and>
        (\<exists>e. outcome (toExcel f cb) = Inl e) \<and>
        (\<exists>e. outcome (toHTML f cb) = Inl e)" if c: "Corrupted \<in> set d"
    unfolding outcome_def split_def merge_def compress_def
    by (intro conjI allI impI)
      (rule splitPDF_fails [OF assms c] rotateAll_fails [OF assms c] reverse_fails [OF assms c]
        mergePDFs_fails [OF _ assms c] compressPDF_fails [OF assms c]
        removeDuplicates_fails [OF assms c] linearize_fails [OF assms c] unlock_fails [OF assms c]
        addWatermark_fails [OF assms c] addImageWatermark_fails [OF assms c]
        addHeaderFooter_fails [OF assms c] convertPDFToImages_fails [OF assms c]
        image_converters_fail [OF assms c] extractTextFromPDF_fails [OF assms c]
        text_converters_fail [OF assms c] | assumption)+
  have 8: "(Some (int i + 1) \<in> set nums \<and> safe_numbers nums \<longrightarrow>
           (\<exists>e. outcome (extract exponential f nums cb) = Inl e)) \<and>
        (Some (int i + 1) \<notin> set dels \<and> safe_numbers dels \<longrightarrow>
           (\<exists>e. outcome (deletePages exponential f dels cb) = Inl e)) \<and>
        ((\<exists>c \<in> set pageConfig. originalIndex c = Some (int i)) \<longrightarrow>
           (\<exists>e. outcome (organize f pageConfig cb) = Inl e)) \<and>
        ((if config_startPage config = 0 then 1 else config_startPage config) \<le> int i + 1 \<longrightarrow>
           (\<exists>e. outcome (addPageNumbers font f config cb) = Inl e)) \<and>
        (config_pages = ''all'' \<or> parseInt config_pages = Some (int i + 1) \<longrightarrow>
           (\<exists>e. outcome (addText font f config_text config_pages cb) = Inl e) \<and>
           (\<exists>e. outcome (addImage f imageFile config_pages cb) = Inl e) \<and>
           (\<exists>e. outcome (drawShape f config_type config_pages cb) = Inl e) \<and>
           (\<exists>e. outcome (addHighlight f config_pages cb) = Inl e) \<and>
           (\<exists>e. outcome (redact f config_pages cb) = Inl e))"
    if i: "i < length d" "d ! i = Corrupted" for i
  proof (intro conjI impI)
    assume "Some (int i + 1) \<in> set nums \<and> safe_numbers nums"
    then show "\<exists>e. outcome (extract exponential f nums cb) = Inl e"
      using extract_fails [OF assms, of "int i + 1" nums exponential cb] i by (simp add: outcome_def)
  next
    assume "Some (int i + 1) \<notin> set dels \<and> safe_numbers dels"
    then show "\<exists>e. outcome (deletePages exponential f dels cb) = Inl e"
      using deletePages_fails [OF assms i, of dels exponential cb] by (simp add: outcome_def)
  next
    assume "\<exists>c \<in> set pageConfig. originalIndex c = Some (int i)"
    then obtain j where "j < length pageConfig" "originalIndex (pageConfig ! j) = Some (int i)"
      by (auto simp: in_set_conv_nth)
    then show "\<exists>e. outcome (organize f pageConfig cb) = Inl e"
      using organize_fails [OF assms, of j pageConfig "int i" cb] i by (simp add: outcome_def)
  next
    assume "(if config_startPage config = 0 then 1 else config_startPage config) \<le> int i + 1"
    then show "\<exists>e. outcome (addPageNumbers font f config cb) = Inl e"
      unfolding outcome_def by (rule addPageNumbers_fails [OF assms i])
  next
    assume p: "config_pages = ''all'' \<or> parseInt config_pages = Some (int i + 1)"
    show "\<exists>e. outcome (addText font f config_text config_pages cb) = Inl e"
      unfolding outcome_def by (rule addText_fails [OF assms i p])
    show "\<exists>e. outcome (addImage f imageFile config_pages cb) = Inl e"
      unfolding outcome_def by (rule addImage_fails [OF assms i p])
    show "\<exists>e. outcome (drawShape f config_type config_pages cb) = Inl e"
      unfolding outcome_def by (rule drawShape_fails [OF assms i p])
    show "\<exists>e. outcome (addHighlight f config_pages cb) = Inl e"
      unfolding outcome_def by (rule addHighlight_fails [OF assms i p])
    show "\<exists>e. outcome (redact f config_pages cb) = Inl e"
      unfolding outcome_def by (rule redact_fails [OF assms i p])
  qed
  from 8 have 9: "\<forall>i < length d. d ! i = Corrupted \<longrightarrow>
        (Some (int i + 1) \<in> set nums \<and> safe_numbers nums \<longrightarrow>
           (\<exists>e. outcome (extract exponential f nums cb) = Inl e)) \<and>
        (Some (int i + 1) \<notin> set dels \<and> safe_numbers dels \<longrightarrow>
           (\<exists>e. outcome (deletePages exponential f dels cb) = Inl e)) \<and>
        ((\<exists>c \<in> set pageConfig. originalIndex c = Some (int i)) \<longrightarrow>
           (\<exists>e. outcome (organize f pageConfig cb) = Inl e)) \<and>
        ((if config_startPage config = 0 then 1 else config_startPage config) \<le> int i + 1 \<longrightarrow>
           (\<exists>e. outcome (addPageNumbers font f config cb) = Inl e)) \<and>
        (config_pages = ''all'' \<or> parseInt config_pages = Some (int i + 1) \<longrightarrow>
           (\<exists>e. outcome (addText font f config_text config_pages cb) = Inl e) \<and>
           (\<exists>e. outcome (addImage f imageFile config_pages cb) = Inl e) \<and>
           (\<exists>e. outcome (drawShape f config_type config_pages cb) = Inl e) \<and>
           (\<exists>e. outcome (addHighlight f config_pages cb) = Inl e) \<and>
           (\<exists>e. outcome (redact f config_pages cb) = Inl e))"
    by (intro allI impI)
  have 10: "(\<forall>line \<in> set (split_on (CHR 0x0A) file_text).
          (\<not> encodes font (take 80 line) \<longrightarrow>
             (\<exists>e. outcome (textToPDF font file_text cb :: 'a data run) = Inl e)) \<and>
          (\<not> encodes font (hd (split_on (CHR '' '') line) @ '' '') \<longrightarrow>
             (\<exists>e. outcome (wordToPDF font (Inr file_text) cb :: 'a data run) = Inl e))) \<and>
       (\<forall>e. \<exists>e'. outcome (wordToPDF font (Inl e) cb :: 'a data run) = Inl e') \<and>
       (\<forall>line \<in> set (split_on (CHR 0x0A) (stripped_html html)).
          trim line \<noteq> [] \<and> \<not> encodes font (take 70 (trim line)) \<longrightarrow>
             (\<exists>e. outcome (htmlToPDF font html cb :: 'a data run) = Inl e)) \<and>
       (\<forall>s < length workbook.
          \<not> encodes font (''Sheet: '' @ fst (workbook ! s)) \<or>
          (\<exists>row \<in> set (snd (workbook ! s)). \<not> encodes font (take 100 (join_with ''  |  '' row))) \<longrightarrow>
             (\<exists>e. outcome (excelToPDF font (Inr workbook) cb :: 'a data run) = Inl e)) \<and>
     (\<forall>e. \<exists>e'. outcome (excelToPDF font (Inl e) cb :: 'a data run) = Inl e')"
    unfolding outcome_def
    by (intro conjI ballI allI impI)
      (erule textToPDF_fails wordToPDF_fails htmlToPDF_fails excelToPDF_fails conjE
        | rule wordToPDF_extraction_fails excelToPDF_read_fails | assumption)+
  show ?thesis
    by (intro conjI 1 2 3 4 5 6 9 10 impI [OF 7])
qed


text \<open>
  A document whose second page is corrupted, a document with no readable page, two
  image files of which the first does not decode, and texts with a character that the font
  cannot encode.
\<close>

theorem page_failure_policy_witness:
  "outcome (repair damaged_file True) = Inr (PdfData [page_A, page_C]) \<and>
   warnings (repair damaged_file True) = [Warn_page 2] \<and>
   outcome (repair (pdf_file [Corrupted :: string page_object]) True) = Inl (RepairFailed NoValidPages) \<and>
   outcome (createPDFFromImages [bad_image, good_image]) = Inr (PdfData (image_pages good_image)) \<and>
   warnings (createPDFFromImages [bad_image, good_image]) = [Warn_image ''a.jpg''] \<and>
   (\<exists>e. outcome (split damaged_file True) = Inl e) \<and>
   (\<exists>e. outcome (rotateAll damaged_file 90 True) = Inl e) \<and>
   (\<exists>e. outcome (reverse damaged_file True) = Inl e) \<and>
   (\<exists>e. outcome (merge [pdf_file [page_B], damaged_file] True) = Inl e) \<and>
   (\<exists>e. outcome (compress example_render damaged_file ''medium'' True) = Inl e) \<and>
   (\<exists>e. outcome (removeDuplicates damaged_file True) = Inl e) \<and>
   (\<exists>e. outcome (linearize damaged_file True) = Inl e) \<and>
   (\<exists>e. outcome (unlock damaged_file '''' True) = Inl e) \<and>
   (\<exists>e. outcome (addWatermark example_font damaged_file ''DRAFT'' True) = Inl e) \<and>
   (\<exists>e. outcome (addImageWatermark damaged_file good_image True) = Inl e) \<and>
   (\<exists>e. outcome (addHeaderFooter example_font damaged_file ''{page}/{total}'' True) = Inl e) \<and>
   (\<exists>e. outcome (toImages example_render damaged_file ''png'' True) = Inl e) \<and>
   (\<exists>e. outcome (toPowerPoint example_render damaged_file True) = Inl e) \<and>
   (\<exists>e. outcome (toText damaged_file True) = Inl e) \<and>
   (\<exists>e. outcome (toWord damaged_file True) = Inl e) \<and>
   (\<exists>e. outcome (toExcel damaged_file True) = Inl e) \<and>
   (\<exists>e. outcome (toHTML damaged_file True) = Inl e) \<and>
   (\<exists>e. outcome (extract exponent_text damaged_file [Some 2] True) = Inl e) \<and>
   (\<exists>e. outcome (deletePages exponent_text damaged_file [Some 1] True) = Inl e) \<and>
   (\<exists>e. outcome (organize damaged_file [\<lparr>originalIndex = Some 1, config_rotation = 0\<rparr>] True) = Inl e) \<and>
   (\<exists>e. outcome (addPageNumbers example_font damaged_file
           \<lparr>config_format = '''', config_startPage = 0\<rparr> True) = Inl e) \<and>
   (\<exists>e. outcome (addText example_font damaged_file ''note'' ''2'' True) = Inl e) \<and>
   (\<exists>e. outcome (addImage damaged_file good_image ''2'' True) = Inl e) \<and>
   (\<exists>e. outcome (drawShape damaged_file ''circle'' ''2'' True) = Inl e) \<and>
   (\<exists>e. outcome (addHighlight damaged_file ''2'' True) = Inl e) \<and>
   (\<exists>e. outcome (redact damaged_file ''2'' True) = Inl e) \<and>
   (\<exists>e. outcome (textToPDF example_font bad_text True :: string data run) = Inl e) \<and>
   (\<exists>e. outcome (wordToPDF example_font (Inr bad_text) True :: string data run) = Inl e) \<and>
   (\<exists>e. outcome (wordToPDF example_font (Inl LoadFailed) True :: string data run) = Inl e) \<and>
   (\<exists>e. outcome (htmlToPDF example_font bad_html True :: string data run) = Inl e) \<and>
   (\<exists>e. outcome (excelToPDF example_font (Inr bad_workbook) True :: string data run) = Inl e)"
proof -
  let ?d = "[page_A, Corrupted, page_C]"
  have b: "bytes damaged_file = PdfData ?d"
    "bytes (pdf_file [Corrupted :: string page_object]) = PdfData [Corrupted]"
    by (simp_all add: pdf_file_def damaged_file_def)
  have u: "[0..<length ?d] = [0, 1, 2]"
    by (simp add: upt_rec)
  have r: "page_A \<noteq> Corrupted" "page_C \<noteq> Corrupted"
    by (simp_all add: page_A_def page_C_def)
  have sf: "safe_numbers [Some 2]" "safe_numbers [Some 1]"
    by (simp_all add: safe_numbers_def max_safe_integer_def)
  have pi: "parseInt ''2'' = Some 2"
    by code_simp
  have im: "filter embed_throws [bad_image, good_image] = [bad_image]"
    "concat (map image_pages [bad_image, good_image]) = image_pages good_image"
    "image_pages good_image \<noteq> []" "fname bad_image = ''a.jpg''"
    by (simp_all add: embed_throws_def image_pages_def bad_image_def good_image_def)
  note t = page_failure_policy [OF b(1), where cb = True and files = "[bad_image, good_image]"
      and delta = 90 and render = example_render and quality = "''medium''" and password = "''''"
      and watermarkText = "''DRAFT''" and imageFile = good_image
      and config_text = "''note''" and mimeType = "''image/png''" and fmt = "''png''"
      and exponential = exponent_text and nums = "[Some 2]" and dels = "[Some 1]"
      and pageConfig = "[\<lparr>originalIndex = Some 1, config_rotation = 0\<rparr>]"
      and config = "\<lparr>config_format = '''', config_startPage = 0\<rparr>"
      and config_pages = "''2''" and config_type = "''circle''" and font = example_font
      and file_text = bad_text and html = bad_html and workbook = bad_workbook]
  note t' = page_failure_policy [OF b(1), where cb = True and files = "[] :: string file_obj list"
      and config_text = "''{page}/{total}''" and font = example_font]
  have c: "Corrupted \<in> set ?d" by simp
  have 1: "outcome (repair damaged_file True) = Inr (PdfData [page_A, page_C])"
    "warnings (repair damaged_file True) = [Warn_page 2]"
    using t [THEN conjunct1] t [THEN conjunct2, THEN conjunct1] unfolding u by (simp_all add: r)
  have 2: "outcome (repair (pdf_file [Corrupted :: string page_object]) True) = Inl (RepairFailed NoValidPages)"
    using page_failure_policy [OF b(2), where cb = True and files = "[] :: string file_obj list",
        THEN conjunct1] by simp
  have 3: "outcome (createPDFFromImages [bad_image, good_image]) = Inr (PdfData (image_pages good_image))"
    "warnings (createPDFFromImages [bad_image, good_image]) = [Warn_image ''a.jpg'']"
    using t [THEN conjunct2, THEN conjunct2, THEN conjunct2, THEN conjunct2, THEN conjunct1]
      t [THEN conjunct2, THEN conjunct2, THEN conjunct2, THEN conjunct2, THEN conjunct2, THEN conjunct1]
    unfolding im(1,2) by (simp_all add: im(3,4) save_nonempty)
  note w = t [THEN conjunct2, THEN conjunct2, THEN conjunct2, THEN conjunct2, THEN conjunct2,
      THEN conjunct2, THEN conjunct1, rule_format, OF c]
  note w' = t' [THEN conjunct2, THEN conjunct2, THEN conjunct2, THEN conjunct2, THEN conjunct2,
      THEN conjunct2, THEN conjunct1, rule_format, OF c]
  have i: "(1 :: nat) < length ?d" "?d ! 1 = Corrupted" by simp_all
  note p = t [THEN conjunct2, THEN conjunct2, THEN conjunct2, THEN conjunct2, THEN conjunct2,
      THEN conjunct2, THEN conjunct2, THEN conjunct1, rule_format, OF i]
  note q = t [THEN conjunct2, THEN conjunct2, THEN conjunct2, THEN conjunct2, THEN conjunct2,
      THEN conjunct2, THEN conjunct2, THEN conjunct2]
  have tx: "split_on (CHR 0x0A) bad_text = [''ok'', [CHR 0x01, CHR ''x'']]"
    "split_on (CHR '' '') [CHR 0x01, CHR ''x''] = [[CHR 0x01, CHR ''x'']]"
    "stripped_html bad_html = [CHR '' '', CHR 0x01, CHR '' '']"
    "trim [CHR '' '', CHR 0x01, CHR '' ''] = [CHR 0x01]"
    by code_simp+
  have en: "\<not> encodes example_font [CHR 0x01, CHR ''x'']"
    "\<not> encodes example_font ([CHR 0x01, CHR ''x''] @ '' '')"
    "\<not> encodes example_font [CHR 0x01]"
    "\<not> encodes example_font (join_with ''  |  '' [''a'', [CHR 0x01]])"
    by (simp_all add: example_font_def)
  have 8: "\<exists>e. outcome (textToPDF example_font bad_text True :: string data run) = Inl e"
    "\<exists>e. outcome (wordToPDF example_font (Inr bad_text) True :: string data run) = Inl e"
    using q [THEN conjunct1] en by (simp_all add: tx)
  have 9: "\<exists>e. outcome (wordToPDF example_font (Inl LoadFailed) True :: string data run) = Inl e"
    using q [THEN conjunct2, THEN conjunct1] by simp
  have 10: "\<exists>e. outcome (htmlToPDF example_font bad_html True :: string data run) = Inl e"
    using q [THEN conjunct2, THEN conjunct2, THEN conjunct1] en by (simp add: tx)
  have 11: "\<exists>e. outcome (excelToPDF example_font (Inr bad_workbook) True :: string data run) = Inl e"
    using q [THEN conjunct2, THEN conjunct2, THEN conjunct2, THEN conjunct1] en
    by (simp add: bad_workbook_def)
  have 4: "\<exists>e. outcome (merge [pdf_file [page_B], damaged_file] True) = Inl e"
    using w by simp
  have 5: "\<exists>e. outcome (addHeaderFooter example_font damaged_file ''{page}/{total}'' True) = Inl e"
    using w' by simp
  have 6: "\<exists>e. outcome (extract exponent_text damaged_file [Some 2] True) = Inl e"
    "\<exists>e. outcome (deletePages exponent_text damaged_file [Some 1] True) = Inl e"
    "\<exists>e. outcome (organize damaged_file [\<lparr>originalIndex = Some 1, config_rotation = 0\<rparr>] True) = Inl e"
    "\<exists>e. outcome (addPageNumbers example_font damaged_file
            \<lparr>config_format = '''', config_startPage = 0\<rparr> True) = Inl e"
    using p sf by simp_all
  have 7: "\<exists>e. outcome (addText example_font damaged_file ''note'' ''2'' True) = Inl e"
    "\<exists>e. outcome (addImage damaged_file good_image ''2'' True) = Inl e"
    "\<exists>e. outcome (drawShape damaged_file ''circle'' ''2'' True) = Inl e"
    "\<exists>e. outcome (addHighlight damaged_file ''2'' True) = Inl e"
    "\<exists>e. outcome (redact damaged_file ''2'' True) = Inl e"
    using p pi by simp_all
  from 1 2 3 4 5 6 7 8 9 10 11 w show ?thesis
    by (intro conjI) (simp_all only: simp_thms)
qed

text \<open>
  Claim C3 as stated fails: \<open>imagesToPDF\<close>, which is not \<open>repair\<close>, is given a file
  declared JPEG whose bytes do not embed and a good PNG; embedding the first throws, and the
  run still returns a document, with the second file's page, after a warning.
\<close>

theorem imagesToPDF_tolerates_counterexample:
  "embedJpg (bytes bad_image) = Inl EmbedFailed \<and>
   outcome (imagesToPDF [bad_image, good_image] True)
     = Inr (PdfData [Readable \<lparr>content = [Picture ''img''], rotation = 0\<rparr>]) \<and>
   warnings (imagesToPDF [bad_image, good_image] True) = [Warn_image ''a.jpg'']"
  using imagesToPDF_result [of "[bad_image, good_image]" True]
  by (simp add: outcome_def embedJpg_def image_pages_def embed_throws_def bad_image_def
      good_image_def save_nonempty)


section \<open>Proofs: progress values\<close>

lemma in_percent_range_percent_of:
  assumes "0 \<le> a" "a \<le> b" "0 < b"
  shows "in_percent_range (percent_of a b)"
proof -
  have "(of_int a :: rat) * 100 / of_int b \<le> 100" "0 \<le> (of_int a :: rat) * 100 / of_int b"
    using assms by (simp_all add: divide_le_eq)
  then show ?thesis
    using assms by (simp add: percent_of_def js_times_def js_div_def in_percent_range_def)
qed

lemma in_percent_range_repair:
  assumes "0 \<le> a" "a \<le> b" "0 < b"
  shows "in_percent_range (js_plus 50 (js_times (js_div a b) 50))"
proof -
  have "(of_int a :: rat) * 50 / of_int b \<le> 50" "0 \<le> (of_int a :: rat) * 50 / of_int b"
    using assms by (simp_all add: divide_le_eq)
  then show ?thesis
    using assms by (simp add: js_plus_def js_times_def js_div_def in_percent_range_def)
qed

lemma in_percent_range_repair_upt:
  "i < n \<Longrightarrow> in_percent_range (js_plus 50 (js_times (js_div (int i + 1) (int n)) 50))"
  by (rule in_percent_range_repair) simp_all

lemma in_percent_range_const: "in_percent_range (Fin 20)" "in_percent_range (Fin 50)"
  by (simp_all add: in_percent_range_def)

lemma in_percent_range_upt: "i < n \<Longrightarrow> in_percent_range (percent_of (int i + 1) (int n))"
  by (rule in_percent_range_percent_of) simp_all

lemma in_percent_range_down: "i < n \<Longrightarrow> in_percent_range (percent_of (int n - int i) (int n))"
  by (rule in_percent_range_percent_of) simp_all

lemma events_ok_basic [simp]:
  "events_ok (succeed x)" "events_ok (throw e)" "events_ok (lift r)"
  "events_ok (warn (Warn_page n))" "events_ok (warn (Warn_image s))"
  "events_ok (report cb p) = (cb \<longrightarrow> in_percent_range p)"
  by (simp_all add: events_ok_def)

lemma events_ok_and_then:
  "events_ok m \<Longrightarrow> (\<And>x. snd m = Inr x \<Longrightarrow> events_ok (f x)) \<Longrightarrow> events_ok (and_then m f)"
  by (cases "snd m") (simp_all add: events_ok_def fst_and_then)

lemma events_ok_for_each_inv:
  assumes "I xs s"
    and "\<And>x xs s. I (x # xs) s \<Longrightarrow> events_ok (body x s) \<and> (\<forall>s'. snd (body x s) = Inr s' \<longrightarrow> I xs s')"
  shows "events_ok (for_each xs body s)"
  using assms(1)
proof (induction xs arbitrary: s)
  case Nil
  then show ?case by (simp add: events_ok_def)
next
  case (Cons x xs)
  from assms(2) [OF Cons.prems] have b: "events_ok (body x s)"
    and n: "\<And>s'. snd (body x s) = Inr s' \<Longrightarrow> I xs s'" by blast+
  show ?case
  proof (cases "snd (body x s)")
    case (Inl e)
    with b show ?thesis by (simp add: events_ok_def fst_for_each_Cons del: for_each.simps)
  next
    case (Inr s')
    from Cons.IH [OF n [OF Inr]] b Inr show ?thesis
      by (simp add: events_ok_def fst_for_each_Cons del: for_each.simps)
  qed
qed

lemma events_ok_for_each:
  assumes "\<And>x s. x \<in> set xs \<Longrightarrow> events_ok (body x s)"
  shows "events_ok (for_each xs body s)"
proof (rule events_ok_for_each_inv [where I = "\<lambda>ys s. set ys \<subseteq> set xs"])
  show "set xs \<subseteq> set xs" by simp
qed (use assms in auto)

lemma events_ok_upt:
  assumes "\<And>i s. i < n \<Longrightarrow> events_ok (body i s)"
  shows "events_ok (for_each [0..<n] body s)"
  using assms by (intro events_ok_for_each) simp

lemma events_ok_progress: "events_ok r \<Longrightarrow> \<forall>p \<in> set (progress_values r). in_percent_range p"
  by (auto simp: events_ok_def progress_values_def list_all_iff split: event.splits)

lemma events_ok_splitPDF: "events_ok (splitPDF f cb)"
  unfolding splitPDF_def Let_def
  by (intro events_ok_and_then events_ok_upt)
    (simp_all add: in_percent_range_upt in_percent_range_down)

lemma events_ok_extract: "events_ok (extract exponential f nums cb)"
  unfolding extract_def Let_def
  by (intro events_ok_and_then events_ok_upt)
    (simp_all add: in_percent_range_upt in_percent_range_down)

lemma events_ok_organize: "events_ok (organize f pageConfig cb)"
  unfolding organize_def Let_def
  by (intro events_ok_and_then events_ok_upt)
    (simp_all add: in_percent_range_upt in_percent_range_down)

lemma events_ok_rotateAll: "events_ok (rotateAll f delta cb)"
  unfolding rotateAll_def Let_def
  by (intro events_ok_and_then events_ok_upt)
    (simp_all add: in_percent_range_upt in_percent_range_down)

lemma events_ok_reverse: "events_ok (reverse f cb)"
  unfolding reverse_def Let_def
  by (intro events_ok_and_then events_ok_for_each)
    (simp_all add: in_percent_range_upt in_percent_range_down)

lemma events_ok_imagesToPDF: "events_ok (imagesToPDF files cb)"
  unfolding imagesToPDF_def Let_def
  by (intro events_ok_and_then events_ok_upt)
    (auto simp: in_percent_range_upt intro!: events_ok_and_then split: sum.splits option.splits)


lemma events_ok_repair: "events_ok (repair f cb)"
proof -
  have "events_ok (repair_body f cb)"
    unfolding repair_body_def Let_def
    by (intro events_ok_and_then events_ok_upt)
      (auto simp: in_percent_range_const getPageCount_def in_percent_range_repair_upt
        intro!: events_ok_and_then split: sum.splits)
  then show ?thesis
    by (cases "repair_body f cb") (auto simp: repair_def events_ok_def split: sum.splits)
qed

lemma events_ok_mergePDFs:
  fixes files :: "'a file_obj list"
  shows "events_ok (mergePDFs files cb)"
proof -
  let ?body = "\<lambda>file (processedFiles, mergedPdf).
             let processedFiles' = processedFiles + 1 in
             and_then (report cb (percent_of (int processedFiles') (int (length files)))) (\<lambda>_.
             and_then (lift (load (bytes file))) (\<lambda>pdf.
             and_then (lift (copyPages pdf (getPageIndices pdf))) (\<lambda>copiedPages.
             succeed (processedFiles', foldl addPage mergedPdf copiedPages))))"
  have "events_ok (for_each files ?body (0 :: nat, create :: 'a document))"
  proof (rule events_ok_for_each_inv [where I = "\<lambda>ys s. fst s + length ys \<le> length files"])
    show "fst (0 :: nat, create :: 'a document) + length files \<le> length files" by simp
  next
    fix x :: "'a file_obj" and xs and s :: "nat \<times> 'a document"
    assume i: "fst s + length (x # xs) \<le> length files"
    then have "0 < length files" "fst s + 1 \<le> length files" by auto
    then have "in_percent_range (percent_of (int (fst s + 1)) (int (length files)))"
      by (intro in_percent_range_percent_of) simp_all
    then have "events_ok (?body x s)"
      by (cases s) (auto simp: Let_def intro!: events_ok_and_then)
    moreover have "fst s' + length xs \<le> length files" if "snd (?body x s) = Inr s'" for s'
      using that i
      by (cases s) (auto simp: Let_def snd_and_then split: sum.splits)
    ultimately show "events_ok (?body x s) \<and> (\<forall>s'. snd (?body x s) = Inr s' \<longrightarrow> fst s' + length xs \<le> length files)"
      by blast
  qed
  then show ?thesis
    unfolding mergePDFs_def
    by (intro events_ok_and_then) (auto simp: split_beta)
qed

lemma length_deleteSet:
  assumes "\<forall>x \<in> set dels. \<exists>v. x = Some v \<and> 1 \<le> v \<and> v \<le> int n"
  shows "length (filter (\<lambda>i. Some (int i + 1) \<notin> set dels) [0..<n])
           + length (foldl (\<lambda>s x. set_add x s) [] (map minus_one dels)) = n"
proof -
  let ?ds = "foldl (\<lambda>s x. set_add x s) [] (map minus_one dels)"
  let ?g = "\<lambda>i :: nat. Some (int i)"
  have d: "distinct ?ds" by (simp add: distinct_foldl_set_add)
  have s: "set ?ds = minus_one ` set dels"
    by (simp add: set_foldl_set_add)
  have sub: "set ?ds \<subseteq> ?g ` {..<n}"
  proof
    fix y assume "y \<in> set ?ds"
    with s obtain x where "x \<in> set dels" "y = minus_one x" by auto
    with assms obtain v where v: "x = Some v" "1 \<le> v" "v \<le> int n" by blast
    then have "y = ?g (nat (v - 1))" "nat (v - 1) < n"
      using \<open>y = minus_one x\<close> by (simp_all add: minus_one_def)
    then show "y \<in> ?g ` {..<n}" by blast
  qed
  have inj: "inj_on ?g {i. i < n \<and> ?g i \<in> set ?ds}"
    by (auto simp: inj_on_def)
  have "?g ` {i. i < n \<and> ?g i \<in> set ?ds} = set ?ds"
    using sub by auto
  then have "card {i. i < n \<and> ?g i \<in> set ?ds} = card (set ?ds)"
    using card_image [OF inj] by simp
  also have "\<dots> = length ?ds" using d by (simp add: distinct_card)
  finally have c: "card {i. i < n \<and> ?g i \<in> set ?ds} = length ?ds" .
  have "card {i. i < n \<and> ?g i \<in> set ?ds} \<le> n"
    using card_mono [of "{..<n}" "{i. i < n \<and> ?g i \<in> set ?ds}"] by auto
  moreover have "length (filter (\<lambda>i. ?g i \<notin> set ?ds) [0..<n]) = n - card {i. i < n \<and> ?g i \<in> set ?ds}"
    using length_filter_upt_compl [of "\<lambda>i. ?g i \<notin> set ?ds" n] by simp
  ultimately have "length (filter (\<lambda>i. ?g i \<notin> set ?ds) [0..<n]) + length ?ds = n"
    using c by simp
  then show ?thesis by (simp add: deleteSet_has)
qed

lemma events_ok_deletePages:
  assumes "\<forall>x \<in> set dels. \<exists>v. x = Some v \<and> 1 \<le> v \<and> v \<le> int (length (doc_of f))"
    and "safe_numbers dels"
  shows "events_ok (deletePages exponential f dels cb)"
proof (cases "bytes f")
  case (PdfData d)
  define deleteSet where
    "deleteSet = foldl (\<lambda>s n. set_add n s) [] (map minus_one dels)"
  note mp = map_parseInt_number [OF assms(2), of exponential]
  define K where "K = int (length d) - int (length deleteSet)"
  let ?kept = "\<lambda>i. Some (int i) \<notin> set deleteSet"
  from assms(1) PdfData have k: "int (length (filter ?kept [0..<length d])) = K"
    using length_deleteSet [of dels "length d"]
    by (simp add: doc_of_def K_def deleteSet_def deleteSet_has)
  let ?body = "\<lambda>i (processedCount, newPdf).
                  if Some (int i) \<notin> set deleteSet then
                    (let processedCount' = (if cb then processedCount + 1 else processedCount) in
                     and_then
                       (report cb (percent_of (int processedCount') K)) (\<lambda>_.
                     and_then (lift (copyPage d (Some (int i)))) (\<lambda>copiedPage.
                     succeed (processedCount', addPage newPdf copiedPage))))
                  else succeed (processedCount, newPdf)"
  have "events_ok (for_each [0..<length d] ?body (0 :: nat, create :: 'a document))"
  proof (rule events_ok_for_each_inv
      [where I = "\<lambda>ys s. int (fst s) + int (length (filter ?kept ys)) \<le> K"])
    show "int (fst (0 :: nat, create :: 'a document)) + int (length (filter ?kept [0..<length d])) \<le> K"
      using k by simp
  next
    fix x xs and s :: "nat \<times> 'a document"
    assume i: "int (fst s) + int (length (filter ?kept (x # xs))) \<le> K"
    have "events_ok (?body x s)"
    proof (cases "?kept x")
      case True
      with i have "in_percent_range (percent_of (int (fst s + 1)) K)"
        by (intro in_percent_range_percent_of) simp_all
      with True show ?thesis
        by (cases s) (auto simp: Let_def intro!: events_ok_and_then)
    next
      case False
      then show ?thesis by (cases s) simp
    qed
    moreover have "int (fst s') + int (length (filter ?kept xs)) \<le> K" if "snd (?body x s) = Inr s'" for s'
      using that i
      by (cases s) (auto simp: Let_def snd_and_then split: sum.splits if_splits)
    ultimately show "events_ok (?body x s) \<and>
        (\<forall>s'. snd (?body x s) = Inr s' \<longrightarrow> int (fst s') + int (length (filter ?kept xs)) \<le> K)"
      by blast
  qed
  with PdfData show ?thesis
    unfolding deletePages_def Let_def K_def deleteSet_def getPageCount_def mp
    by (intro events_ok_and_then) (auto simp: load_def split_beta)
qed (simp_all add: deletePages_def and_then_def lift_def load_def events_ok_def)

text \<open>
  The percent values of \<open>merge\<close>, \<open>split\<close>, \<open>extract\<close>, \<open>organize\<close>,
  \<open>rotateAll\<close>, \<open>reverse\<close>, \<open>repair\<close> and \<open>imagesToPDF\<close> lie between 0 and 100
  on every input, also in a run that ends with an exception; those of \<open>deletePages\<close> do
  when every number in the list names a page of the document and is an integer a double
  holds exactly.
\<close>

theorem progress_within_bounds:
  "(\<forall>p \<in> set (progress_values (merge files cb)). in_percent_range p) \<and>
   (\<forall>p \<in> set (progress_values (split f cb)). in_percent_range p) \<and>
   (\<forall>p \<in> set (progress_values (extract exponential f nums cb)). in_percent_range p) \<and>
   (\<forall>p \<in> set (progress_values (organize f pageConfig cb)). in_percent_range p) \<and>
   (\<forall>p \<in> set (progress_values (rotateAll f delta cb)). in_percent_range p) \<and>
   (\<forall>p \<in> set (progress_values (reverse f cb)). in_percent_range p) \<and>
   (\<forall>p \<in> set (progress_values (repair f cb)). in_percent_range p) \<and>
   (\<forall>p \<in> set (progress_values (imagesToPDF files cb)). in_percent_range p) \<and>
   ((\<forall>x \<in> set dels. \<exists>v. x = Some v \<and> 1 \<le> v \<and> v \<le> int (length (doc_of f))) \<and>
    safe_numbers dels \<longrightarrow>
      (\<forall>p \<in> set (progress_values (deletePages exponential f dels cb)). in_percent_range p))"
  using events_ok_progress [OF events_ok_mergePDFs, of files cb]
    events_ok_progress [OF events_ok_splitPDF, of f cb]
    events_ok_progress [OF events_ok_extract, of exponential f nums cb]
    events_ok_progress [OF events_ok_organize, of f pageConfig cb]
    events_ok_progress [OF events_ok_rotateAll, of f delta cb]
    events_ok_progress [OF events_ok_reverse, of f cb]
    events_ok_progress [OF events_ok_repair, of f cb]
    events_ok_progress [OF events_ok_imagesToPDF, of files cb]
    events_ok_progress [OF events_ok_deletePages, of dels f exponential cb]
  by (simp add: merge_def split_def)

text \<open>Deleting page 2, listed twice, of a document of three pages reports 50 and 100.\<close>

theorem progress_within_bounds_witness:
  "progress_values (deletePages exponent_text (pdf_file [page_A, page_B, page_C]) [Some 2, Some 2] True)
     = [Fin 50, Fin 100] \<and>
   list_all in_percent_range
     (progress_values (deletePages exponent_text (pdf_file [page_A, page_B, page_C]) [Some 2, Some 2] True)) \<and>
   list_all in_percent_range (progress_values (reverse (pdf_file [page_A, page_B, page_C]) True))"
proof -
  have v: "progress_values (deletePages exponent_text (pdf_file [page_A, page_B, page_C]) [Some 2, Some 2] True)
     = [Fin 50, Fin 100]"
    by code_simp
  have h: "(\<forall>x \<in> set [Some 2, Some 2].
      \<exists>v. x = Some v \<and> 1 \<le> v \<and> v \<le> int (length (doc_of (pdf_file [page_A, page_B, page_C])))) \<and>
      safe_numbers [Some 2, Some 2]"
    by (simp add: doc_of_def pdf_file_def safe_numbers_def max_safe_integer_def)
  note t = progress_within_bounds [of "[] :: string file_obj list" True "pdf_file [page_A, page_B, page_C]"
      exponent_text "[]" "[]" 0 "[Some 2, Some 2]"]
  from t h have "list_all in_percent_range
     (progress_values (deletePages exponent_text (pdf_file [page_A, page_B, page_C]) [Some 2, Some 2] True))"
    unfolding list_all_iff by blast
  moreover from t have "list_all in_percent_range (progress_values (reverse (pdf_file [page_A, page_B, page_C]) True))"
    unfolding list_all_iff by blast
  ultimately show ?thesis using v by simp
qed


section \<open>Proofs: the progress of deletePages, file types and the recent list\<close>

text \<open>
  Claim C4. Every percent value passed to the progress callback lies between 0 and 100.
  \<open>deletePages\<close> breaks this: it computes the percent against
  \<open>totalPages - deleteSet.size\<close>, and the set also counts numbers that name no page.
  Deleting page 5 of a document of three pages reports 50, 100 and 150.
\<close>

theorem deletePages_progress_out_of_range:
  "progress_values (deletePages exponential (pdf_file [page_A, page_B, page_C]) [Some 5] True)
     = [Fin 50, Fin 100, Fin 150] \<and>
   \<not> in_percent_range (Fin 150)"
  by code_simp

text \<open>
  Claim C8, as amended. The checks read the declared MIME type and the name only. A file
  declared \<open>application/pdf\<close> passes the PDF check whatever its name, and so does a file
  whose name ends in \<open>.pdf\<close>. The image check reads the declared type alone: a file passes
  exactly when it is declared \<open>image/jpeg\<close>, \<open>image/png\<close> or \<open>image/jpg\<close>, so a
  file declared \<open>application/pdf\<close> fails it.
\<close>

theorem file_type_validation:
  "(ftype f = ''application/pdf'' \<longrightarrow> isValidPDF f) \<and>
   (endsWith (toLowerCase (fname f)) ''.pdf'' \<longrightarrow> isValidPDF f) \<and>
   isValidImage f = (ftype f = ''image/jpeg'' \<or> ftype f = ''image/png'' \<or> ftype f = ''image/jpg'') \<and>
   (ftype f = ''application/pdf'' \<longrightarrow> \<not> isValidImage f) \<and>
   (ftype g = ftype f \<and> fname g = fname f \<longrightarrow>
      isValidPDF g = isValidPDF f \<and> isValidImage g = isValidImage f \<and> isValidDoc g = isValidDoc f)"
  by (auto simp: isValidPDF_def isValidImage_def isValidDoc_def)

text \<open>
  A file declared \<open>application/pdf\<close> and named \<open>notes.txt\<close>, a file named
  \<open>REPORT.PDF\<close> with no declared type, and two files declared \<open>image/png\<close> of the
  same name and different bytes.
\<close>

theorem file_type_validation_witness:
  "isValidPDF \<lparr>ftype = ''application/pdf'', fname = ''notes.txt'', bytes = PdfData [page_A]\<rparr> \<and>
   \<not> isValidImage \<lparr>ftype = ''application/pdf'', fname = ''notes.txt'', bytes = PdfData [page_A]\<rparr> \<and>
   isValidPDF \<lparr>ftype = '''', fname = ''REPORT.PDF'', bytes = PdfData [page_A]\<rparr> \<and>
   isValidImage \<lparr>ftype = ''image/png'', fname = ''photo.png'', bytes = PngData ''img''\<rparr> \<and>
   isValidImage \<lparr>ftype = ''image/png'', fname = ''photo.png'', bytes = PdfData [page_A]\<rparr>"
proof -
  let ?f = "\<lparr>ftype = ''application/pdf'', fname = ''notes.txt'', bytes = PdfData [page_A]\<rparr>"
  let ?g = "\<lparr>ftype = '''', fname = ''REPORT.PDF'', bytes = PdfData [page_A]\<rparr>"
  let ?h = "\<lparr>ftype = ''image/png'', fname = ''photo.png'', bytes = PngData ''img''\<rparr>"
  let ?k = "\<lparr>ftype = ''image/png'', fname = ''photo.png'', bytes = PdfData [page_A]\<rparr>"
  have e: "endsWith (toLowerCase (fname ?g)) ''.pdf''"
    by code_simp
  have 1: "isValidPDF ?f" "\<not> isValidImage ?f"
    using file_type_validation [of ?f ?f] by simp_all
  have 2: "isValidPDF ?g"
    using file_type_validation [of ?g ?g] e by blast
  have 3: "isValidImage ?h"
    using file_type_validation [of ?h ?h] by simp
  have "ftype ?k = ftype ?h \<and> fname ?k = fname ?h" by simp
  with file_type_validation [of ?h ?k] have "isValidImage ?k = isValidImage ?h" by blast
  with 1 2 3 show ?thesis by simp
qed

text \<open>
  Claim C8 as stated fails: a file named \<open>scan.png\<close> with an empty declared type fails the
  image check, and a file named \<open>x.pdf\<close> declared \<open>image/png\<close> passes it.
\<close>

theorem isValidImage_extension_counterexample:
  "endsWith (toLowerCase ''scan.png'') ''.png'' \<and>
   \<not> isValidImage \<lparr>ftype = '''', fname = ''scan.png'', bytes = PngData ''img''\<rparr> \<and>
   endsWith (toLowerCase ''x.pdf'') ''.pdf'' \<and>
   isValidImage \<lparr>ftype = ''image/png'', fname = ''x.pdf'', bytes = PdfData [page_A]\<rparr>"
  by (simp add: isValidImage_def endsWith_def toLowerCase_def lower_char_def)

lemma take_append_take: "take n (xs @ take n ys) = take n (xs @ ys)"
  by (simp add: min_def)

lemma take_rev_tl: "length xs = Suc n \<Longrightarrow> take n (rev xs) = rev (tl xs)"
  by (cases xs) simp_all

lemma saveRecentFile_entries:
  "recent_entries (saveRecentFile fmt env store toolName fileName n) =
     (if setItem_succeeds env \<and> store \<noteq> Unusable
      then take 10 (\<lparr>entry_id = date_now env, tool = toolName, entry_filename = fileName,
                      fileSize = fmt n, timestamp = iso_string env\<rparr> # recent_entries store)
      else recent_entries store)"
  by (cases store) (simp_all add: saveRecentFile_def recent_entries_def)

lemma saveRecentFile_usable:
  "store \<noteq> Unusable \<Longrightarrow> saveRecentFile fmt env store toolName fileName n \<noteq> Unusable"
  by (cases store) (simp_all add: saveRecentFile_def)

lemma save_all_entries:
  assumes "\<forall>c \<in> set calls. setItem_succeeds (call_env c)" and "store \<noteq> Unusable"
    and "length (recent_entries store) \<le> 10"
  shows "recent_entries (save_all fmt store calls)
           = take 10 (rev (map (entry_of fmt) calls) @ recent_entries store)
         \<and> save_all fmt store calls \<noteq> Unusable"
  using assms
proof (induction calls arbitrary: store)
  case Nil
  then show ?case by (simp add: save_all_def)
next
  case (Cons c calls)
  let ?s = "saveRecentFile fmt (call_env c) store (call_tool c) (call_file c) (call_size c)"
  have u: "?s \<noteq> Unusable" using Cons.prems(2) by (rule saveRecentFile_usable)
  have e: "recent_entries ?s = take 10 (entry_of fmt c # recent_entries store)"
    using Cons.prems by (simp add: saveRecentFile_entries entry_of_def)
  have "recent_entries (save_all fmt ?s calls) = take 10 (rev (map (entry_of fmt) calls) @ recent_entries ?s)
      \<and> save_all fmt ?s calls \<noteq> Unusable"
    using Cons.prems(1) u by (intro Cons.IH) (simp_all add: e)
  moreover have "take 10 (rev (map (entry_of fmt) calls) @ take 10 (entry_of fmt c # recent_entries store))
      = take 10 (rev (map (entry_of fmt) calls) @ entry_of fmt c # recent_entries store)"
    by (rule take_append_take)
  ultimately show ?case by (simp add: save_all_def e del: take_Cons_numeral)
qed


text \<open>
  Claim C9. A call of \<open>saveRecentFile\<close> leaves at most 10 entries in the list when
  there were at most 10. Recording operations one after the other, starting with no list
  stored and with a store that accepts the writes, leaves the entries of the last 10
  operations, the newest first; after 11 operations the first one's entry is gone.
\<close>

theorem recent_list_capped:
  "(length (recent_entries store) \<le> 10 \<longrightarrow>
      length (recent_entries (saveRecentFile fmt env store toolName fileName n)) \<le> 10) \<and>
   ((\<forall>c \<in> set calls. setItem_succeeds (call_env c)) \<longrightarrow>
      recent_entries (save_all fmt Absent calls) = take 10 (rev (map (entry_of fmt) calls)) \<and>
      length (recent_entries (save_all fmt Absent calls)) \<le> 10 \<and>
      (length calls = 11 \<longrightarrow>
         recent_entries (save_all fmt Absent calls) = rev (map (entry_of fmt) (tl calls))))"
proof (intro conjI impI)
  assume "length (recent_entries store) \<le> 10"
  then show "length (recent_entries (saveRecentFile fmt env store toolName fileName n)) \<le> 10"
    by (simp add: saveRecentFile_entries)
next
  assume a: "\<forall>c \<in> set calls. setItem_succeeds (call_env c)"
  then show e: "recent_entries (save_all fmt Absent calls) = take 10 (rev (map (entry_of fmt) calls))"
    using save_all_entries [of calls Absent fmt] by (simp add: recent_entries_def)
  then show "length (recent_entries (save_all fmt Absent calls)) \<le> 10"
    by simp
  assume "length calls = 11"
  then have "take 10 (rev (map (entry_of fmt) calls)) = rev (tl (map (entry_of fmt) calls))"
    by (intro take_rev_tl) simp
  then show "recent_entries (save_all fmt Absent calls) = rev (map (entry_of fmt) (tl calls))"
    unfolding e by (simp add: map_tl)
qed

text \<open>
  Eleven operations, recorded at the clock readings 1 to 11, and a twelfth call on the list
  they leave.
\<close>

theorem recent_list_capped_witness:
  "map entry_id (recent_entries (save_all example_format Absent example_calls))
     = [11, 10, 9, 8, 7, 6, 5, 4, 3, 2] \<and>
   length (recent_entries (saveRecentFile example_format (call_env (example_call 12))
     (save_all example_format Absent example_calls) ''Split PDF'' ''page_1.pdf'' 2048)) \<le> 10"
proof -
  have s: "\<forall>c \<in> set example_calls. setItem_succeeds (call_env c)"
    by (simp add: example_calls_def example_call_def)
  have l: "length example_calls = 11"
    by (simp add: example_calls_def)
  have m: "map entry_id (rev (map (entry_of example_format) (tl example_calls)))
      = [11, 10, 9, 8, 7, 6, 5, 4, 3, 2]"
    by (simp add: example_calls_def example_call_def entry_of_def)
  note t = recent_list_capped [of "save_all example_format Absent example_calls" example_format
      "call_env (example_call 12)" "''Split PDF''" "''page_1.pdf''" 2048 example_calls]
  from t s l
  have e: "recent_entries (save_all example_format Absent example_calls)
      = rev (map (entry_of example_format) (tl example_calls))"
    and n: "length (recent_entries (save_all example_format Absent example_calls)) \<le> 10"
    by blast+
  from t n
  have "length (recent_entries (saveRecentFile example_format (call_env (example_call 12))
     (save_all example_format Absent example_calls) ''Split PDF'' ''page_1.pdf'' 2048)) \<le> 10"
    by blast
  with e m show ?thesis by simp
qed

end
